(* ===== verification/Prelude.thy ===== *)
theory Prelude
  imports Main "HOL-Library.Word" "HOL-Library.Sublist"
begin

text \<open>
  Shared ground of the development: the machine integer types, C strings and the C library
  routines the daemon calls on them (\<open>snprintf\<close> with \<open>%s\<close>, \<open>strchr\<close>, \<open>strrchr\<close>, \<open>strncmp\<close>,
  \<open>strstr\<close>, \<open>strtoul\<close>, \<open>fgets\<close>, the integer conversions of \<open>printf\<close>), and the generic list
  lemmas the components share.

  A C string is the HOL string of its characters before the terminating NUL; a character array
  that the code only ever uses as a string is represented by that string.  Pointer results that
  the code uses to cut a string in two become the two pieces.
\<close>

named_theorems cstr_simps \<open>facts about C strings and library calls\<close>
named_theorems table_simps \<open>facts about bounded tables and their abstractions\<close>

type_synonym u8 = "8 word"
type_synonym u16 = "16 word"
type_synonym u32 = "32 word"
type_synonym u64 = "64 word"
type_synonym size_t = "64 word"

text \<open>
  A C \<open>int\<close>: its 32 bits, in two's complement, read with \<open>sint\<close>.  An increment at \<open>INT_MAX\<close> is
  undefined in C; here it wraps, and theorems about such a number assume that it stays below.
\<close>

type_synonym c_int = "32 word"

lemma sint_c_int: "0 \<le> n \<Longrightarrow> n < 2 ^ 31 \<Longrightarrow> sint (of_int n :: c_int) = n"
  by (simp add: signed_of_int signed_take_bit_int_eq_self)

lemma unat_less_size: "unat (w :: 'a::len word) < 2 ^ LENGTH('a)"
  by (rule unsigned_less)

lemma unat_u8_less: "unat (b :: u8) < 256"
  using unat_less_size [of b] by simp

section \<open>C strings\<close>

abbreviation NUL :: char where
  "NUL \<equiv> CHR 0x00"

abbreviation newline :: char where
  "newline \<equiv> CHR 0x0A"

text \<open>The string a reader sees in a buffer: everything before the first NUL.\<close>

definition cstr :: "string \<Rightarrow> string" where
  "cstr s = takeWhile (\<lambda>c. c \<noteq> NUL) s"

definition is_cstr :: "string \<Rightarrow> bool" where
  "is_cstr s \<longleftrightarrow> NUL \<notin> set s"

text \<open>\<open>snprintf(buf, n, "%s", s)\<close> for a buffer of \<open>n > 0\<close> bytes.\<close>

definition snprintf_s :: "nat \<Rightarrow> string \<Rightarrow> string" where
  "snprintf_s n s = take (n - 1) s"

text \<open>\<open>strncmp(a, b, n) == 0\<close>, and \<open>strstr(hay, nd) != NULL\<close>.\<close>

definition strncmp_eq :: "nat \<Rightarrow> string \<Rightarrow> string \<Rightarrow> bool" where
  "strncmp_eq n a b \<longleftrightarrow> take n a = take n b"

definition strstr :: "string \<Rightarrow> string \<Rightarrow> bool" where
  "strstr hay nd \<longleftrightarrow> sublist nd hay"

text \<open>
  \<open>strchr\<close> and \<open>strrchr\<close>, followed by writing a NUL at the place found: the text before the
  first (last) occurrence and the text after it.
\<close>

fun split_first :: "char \<Rightarrow> string \<Rightarrow> (string \<times> string) option" where
  "split_first c [] = None"
| "split_first c (x # xs) =
     (if x = c then Some ([], xs)
      else (case split_first c xs of None \<Rightarrow> None | Some (a, b) \<Rightarrow> Some (x # a, b)))"

fun split_last :: "char \<Rightarrow> string \<Rightarrow> (string \<times> string) option" where
  "split_last c [] = None"
| "split_last c (x # xs) =
     (case split_last c xs of
        Some (a, b) \<Rightarrow> Some (x # a, b)
      | None \<Rightarrow> (if x = c then Some ([], xs) else None))"

lemma is_cstr_Nil [simp]: "is_cstr []"
  by (simp add: is_cstr_def)

lemma is_cstr_Cons [simp]: "is_cstr (c # s) \<longleftrightarrow> c \<noteq> NUL \<and> is_cstr s"
  by (auto simp: is_cstr_def)

lemma is_cstr_append [simp]: "is_cstr (a @ b) \<longleftrightarrow> is_cstr a \<and> is_cstr b"
  by (auto simp: is_cstr_def)

lemma is_cstr_cstr [cstr_simps, simp]: "is_cstr (cstr s)"
  by (auto simp: is_cstr_def cstr_def dest: set_takeWhileD)

lemma cstr_idem [cstr_simps, simp]: "is_cstr s \<Longrightarrow> cstr s = s"
  by (auto simp: is_cstr_def cstr_def takeWhile_eq_all_conv)

lemma length_snprintf_s: "0 < n \<Longrightarrow> length (snprintf_s n s) < n"
  by (auto simp: snprintf_s_def)

lemma snprintf_s_fits [cstr_simps]: "length s < n \<Longrightarrow> snprintf_s n s = s"
  by (simp add: snprintf_s_def)

lemma is_cstr_snprintf_s [cstr_simps]: "is_cstr s \<Longrightarrow> is_cstr (snprintf_s n s)"
  by (auto simp: is_cstr_def snprintf_s_def dest: in_set_takeD)

lemma strncmp_eq_full [cstr_simps]:
  "length a \<le> n \<Longrightarrow> length b \<le> n \<Longrightarrow> strncmp_eq n a b \<longleftrightarrow> a = b"
  by (simp add: strncmp_eq_def)

lemma strncmp_eq_prefix [cstr_simps]: "strncmp_eq (length p) s p \<longleftrightarrow> prefix p s"
  by (auto simp: strncmp_eq_def prefix_def) (metis append_take_drop_id)

lemma split_first_None [cstr_simps]: "split_first c s = None \<longleftrightarrow> c \<notin> set s"
  by (induction s) (auto split: option.splits)

lemma split_first_Some:
  "split_first c s = Some (a, b) \<longleftrightarrow> s = a @ c # b \<and> c \<notin> set a"
proof (induction s arbitrary: a b)
  case (Cons x xs)
  show ?case using Cons.IH split_first_None [of c xs]
    by (cases a; cases "split_first c xs") (auto split: prod.splits)
qed simp

lemma split_last_None [cstr_simps]: "split_last c s = None \<longleftrightarrow> c \<notin> set s"
  by (induction s) (auto split: option.splits)

lemma split_last_Some:
  "split_last c s = Some (a, b) \<longleftrightarrow> s = a @ c # b \<and> c \<notin> set b"
proof (induction s arbitrary: a b)
  case (Cons x xs)
  show ?case using Cons.IH split_last_None [of c xs]
    by (cases a; cases "split_last c xs") (auto split: prod.splits)
qed simp

subsection \<open>Trimming\<close>

text \<open>\<open>trim\<close> of \<open>asic_main.c\<close>: skip leading blanks, cut trailing ones.\<close>

definition is_blank :: "char \<Rightarrow> bool" where
  "is_blank c \<longleftrightarrow> c = CHR '' '' \<or> c = CHR 0x09 \<or> c = CHR 0x0A \<or> c = CHR 0x0D"

fun rstrip :: "(char \<Rightarrow> bool) \<Rightarrow> string \<Rightarrow> string" where
  "rstrip p [] = []"
| "rstrip p (x # xs) = (let r = rstrip p xs in if r = [] \<and> p x then [] else x # r)"

definition trim :: "string \<Rightarrow> string" where
  "trim s = rstrip is_blank (dropWhile is_blank s)"

lemma rstrip_id [cstr_simps]: "s \<noteq> [] \<Longrightarrow> \<not> p (last s) \<Longrightarrow> rstrip p s = s"
  by (induction s) (auto simp: Let_def split: if_splits)

lemma rstrip_last: "rstrip p s \<noteq> [] \<Longrightarrow> \<not> p (last (rstrip p s))"
  by (induction s) (auto simp: Let_def split: if_splits)

lemma rstrip_prefix: "prefix (rstrip p s) s"
  by (induction s) (auto simp: Let_def)

lemma rstrip_append_all: "\<forall>c \<in> set b. p c \<Longrightarrow> rstrip p (a @ b) = rstrip p a"
  by (induction a) (auto simp: Let_def, induction b, auto)

lemma rstrip_suffix_all: "\<exists>b. s = rstrip p s @ b \<and> (\<forall>c \<in> set b. p c)"
proof (induction s)
  case (Cons x xs)
  then obtain b where b: "xs = rstrip p xs @ b" "\<forall>c \<in> set b. p c" by blast
  show ?case
  proof (cases "rstrip p xs = [] \<and> p x")
    case True
    then have "x # xs = rstrip p (x # xs) @ x # b" using b(1) by (simp add: Let_def)
    then show ?thesis using True b(2) by (intro exI [of _ "x # b"]) auto
  next
    case False
    then have "rstrip p (x # xs) = x # rstrip p xs" by (auto simp: Let_def)
    then show ?thesis using b by (intro exI [of _ b]) auto
  qed
qed simp

lemma rstrip_hd: "rstrip p s \<noteq> [] \<Longrightarrow> hd (rstrip p s) = hd s"
  by (cases s) (auto simp: Let_def split: if_splits)

lemma trim_id [cstr_simps]:
  "s \<noteq> [] \<Longrightarrow> \<not> is_blank (hd s) \<Longrightarrow> \<not> is_blank (last s) \<Longrightarrow> trim s = s"
  unfolding trim_def by (cases s) (simp_all add: rstrip_id del: last.simps rstrip.simps)

lemma trim_Nil [cstr_simps, simp]: "trim [] = []"
  by (simp add: trim_def)

lemma trim_ends:
  assumes "trim s \<noteq> []"
  shows "\<not> is_blank (hd (trim s))" and "\<not> is_blank (last (trim s))"
proof -
  have ne: "dropWhile is_blank s \<noteq> []"
    using assms unfolding trim_def by (metis rstrip.simps(1))
  then show "\<not> is_blank (hd (trim s))"
    using assms unfolding trim_def by (metis rstrip_hd hd_dropWhile)
  show "\<not> is_blank (last (trim s))" using assms by (simp add: trim_def rstrip_last)
qed

lemma trim_idem [cstr_simps, simp]: "trim (trim s) = trim s"
  by (cases "trim s = []") (simp_all add: trim_id trim_ends)

lemma trim_set: "set (trim s) \<subseteq> set s"
  unfolding trim_def
  by (meson rstrip_prefix set_dropWhileD set_mono_prefix subset_iff)

lemma trim_length: "length (trim s) \<le> length s"
  unfolding trim_def
  by (meson rstrip_prefix le_trans length_dropWhile_le prefix_length_le)

lemma trim_pad [cstr_simps]:
  assumes "\<forall>c \<in> set a. is_blank c" and "\<forall>c \<in> set b. is_blank c"
  shows "trim (a @ s @ b) = trim s"
proof -
  have 1: "dropWhile is_blank (a @ s @ b) = dropWhile is_blank (s @ b)"
    using assms(1) by (simp add: dropWhile_append2)
  show ?thesis
  proof (cases "\<forall>c \<in> set s. is_blank c")
    case True
    then have "dropWhile is_blank (s @ b) = []" "dropWhile is_blank s = []"
      using assms(2) by (auto simp only: dropWhile_eq_Nil_conv set_append ball_Un)
    then show ?thesis by (simp only: trim_def 1)
  next
    case False
    then have "dropWhile is_blank (s @ b) = dropWhile is_blank s @ b"
      by (auto simp: dropWhile_append1)
    then show ?thesis using 1 assms(2) by (simp add: trim_def rstrip_append_all)
  qed
qed

section \<open>Numbers as text\<close>

definition digit_char :: "nat \<Rightarrow> char" where
  "digit_char d = (if d < 10 then char_of (48 + d) else char_of (87 + d))"

lemma digit_char_simps [simp]:
  "digit_char 0 = CHR ''0''" "digit_char (Suc 0) = CHR ''1''" "digit_char 1 = CHR ''1''"
  "digit_char 2 = CHR ''2''" "digit_char 3 = CHR ''3''" "digit_char 4 = CHR ''4''"
  "digit_char 5 = CHR ''5''" "digit_char 6 = CHR ''6''" "digit_char 7 = CHR ''7''"
  "digit_char 8 = CHR ''8''" "digit_char 9 = CHR ''9''" "digit_char 10 = CHR ''a''"
  "digit_char 11 = CHR ''b''" "digit_char 12 = CHR ''c''" "digit_char 13 = CHR ''d''"
  "digit_char 14 = CHR ''e''" "digit_char 15 = CHR ''f''"
  by (simp_all add: digit_char_def char_of_def bit_Suc_0_iff)

text \<open>The digits of a number, most significant first (\<open>%u\<close>, \<open>%zu\<close>, \<open>%llu\<close>, \<open>%x\<close>).\<close>

fun radix :: "nat \<Rightarrow> nat \<Rightarrow> string" where
  "radix b n =
     (if b < 2 \<or> n < b then [digit_char n] else radix b (n div b) @ [digit_char (n mod b)])"

declare radix.simps [simp del]

abbreviation fmt_u :: "nat \<Rightarrow> string" where
  "fmt_u \<equiv> radix 10"

abbreviation fmt_x :: "nat \<Rightarrow> string" where
  "fmt_x \<equiv> radix 16"

text \<open>\<open>%d\<close> and \<open>%lld\<close> on a signed value; \<open>%0<w>x\<close> and \<open>%0<w>u\<close> pad with zeros to width \<open>w\<close>.\<close>

definition fmt_d :: "int \<Rightarrow> string" where
  "fmt_d i = (if i < 0 then CHR ''-'' # fmt_u (nat (- i)) else fmt_u (nat i))"

definition pad0 :: "nat \<Rightarrow> string \<Rightarrow> string" where
  "pad0 w s = replicate (w - length s) (CHR ''0'') @ s"

definition fmt_bool :: "bool \<Rightarrow> string" where
  "fmt_bool b = (if b then ''true'' else ''false'')"

definition is_digit :: "char \<Rightarrow> bool" where
  "is_digit c \<longleftrightarrow> 48 \<le> (of_char c :: nat) \<and> (of_char c :: nat) \<le> 57"

definition digit_val :: "char \<Rightarrow> nat" where
  "digit_val c = of_char c - 48"

definition dec_value :: "string \<Rightarrow> nat" where
  "dec_value s = foldl (\<lambda>n c. 10 * n + digit_val c) 0 s"

lemma is_digit_digit_char [cstr_simps]: "d < 10 \<Longrightarrow> is_digit (digit_char d)"
  by (simp add: is_digit_def digit_char_def)

lemma digit_val_digit_char [cstr_simps]: "d < 10 \<Longrightarrow> digit_val (digit_char d) = d"
  by (simp add: digit_val_def digit_char_def)

lemma radix_nonempty [cstr_simps, simp]: "radix b n \<noteq> []"
  by (subst radix.simps) simp

lemma fmt_u_digits: "c \<in> set (fmt_u n) \<Longrightarrow> is_digit c"
proof (induction "10 :: nat" n rule: radix.induct)
  case (1 n)
  then show ?case
    by (subst (asm) radix.simps) (auto simp: is_digit_digit_char split: if_splits)
qed

lemma dec_value_fmt_u [cstr_simps, simp]: "dec_value (fmt_u n) = n"
proof (induction "10 :: nat" n rule: radix.induct)
  case (1 n)
  then show ?case
    by (subst radix.simps) (auto simp: dec_value_def digit_val_digit_char)
qed

lemma fmt_u_inj: "fmt_u m = fmt_u n \<Longrightarrow> m = n"
  by (metis dec_value_fmt_u)

lemma length_radix_le: "1 < b \<Longrightarrow> n < b ^ k \<Longrightarrow> 0 < k \<Longrightarrow> length (radix b n) \<le> k"
proof (induction b n arbitrary: k rule: radix.induct)
  case (1 b n)
  show ?case
  proof (cases "n < b")
    case True
    then show ?thesis using "1.prems" by (subst radix.simps) simp
  next
    case False
    then obtain j where k: "k = Suc j" "0 < j"
      using "1.prems" by (cases k; cases "k - 1") auto
    have "n div b < b ^ j"
      using "1.prems" k by (simp add: less_mult_imp_div_less mult.commute)
    then have "length (radix b (n div b)) \<le> j"
      using "1.IH" "1.prems"(1) False k by simp
    then show ?thesis using False k "1.prems"(1) by (subst radix.simps) simp
  qed
qed

lemma length_pad0 [cstr_simps]: "length s \<le> w \<Longrightarrow> length (pad0 w s) = w"
  by (simp add: pad0_def)

subsection \<open>strtoul\<close>

text \<open>\<open>isspace\<close> in the C locale.\<close>

definition is_space :: "char \<Rightarrow> bool" where
  "is_space c \<longleftrightarrow> c = CHR '' '' \<or> (9 \<le> (of_char c :: nat) \<and> (of_char c :: nat) \<le> 13)"

datatype sign = Plus | Minus

definition take_sign :: "string \<Rightarrow> sign \<times> string" where
  "take_sign s = (case s of [] \<Rightarrow> (Plus, [])
     | c # cs \<Rightarrow> if c = CHR ''-'' then (Minus, cs) else if c = CHR ''+'' then (Plus, cs)
                else (Plus, s))"

text \<open>
  \<open>strtoul\<close> and \<open>strtoull\<close> in base 10 on a platform with 64-bit \<open>unsigned long\<close>: the value, whether
  \<open>errno\<close> became \<open>ERANGE\<close>, and the text at \<open>*end\<close>.  Without digits the value is 0 and \<open>*end\<close> is
  the whole input; a minus sign negates modulo \<open>2 ^ 64\<close>; out of range gives the maximum.
\<close>

definition strtoul :: "string \<Rightarrow> u64 \<times> bool \<times> string" where
  "strtoul s =
     (let (sg, t) = take_sign (dropWhile is_space s);
          ds = takeWhile is_digit t;
          rest = dropWhile is_digit t;
          n = dec_value ds
      in if ds = [] then (0, False, s)
         else if 2 ^ 64 \<le> n then (- 1, True, rest)
         else (case sg of Plus \<Rightarrow> of_nat n | Minus \<Rightarrow> - of_nat n, False, rest))"

lemma hd_fmt_u: "is_digit (hd (fmt_u n))"
  using fmt_u_digits [of "hd (fmt_u n)" n] by simp

lemma digit_not_space: "is_digit c \<Longrightarrow> \<not> is_space c"
  by (auto simp: is_digit_def is_space_def)

lemma digit_not_sign: "is_digit c \<Longrightarrow> c \<noteq> CHR ''-'' \<and> c \<noteq> CHR ''+''"
  by (auto simp: is_digit_def)

lemma digit_not_blank: "is_digit c \<Longrightarrow> \<not> is_blank c"
  by (auto simp: is_digit_def is_blank_def)

lemma take_sign_digit: "is_digit (hd s) \<Longrightarrow> s \<noteq> [] \<Longrightarrow> take_sign s = (Plus, s)"
  by (cases s) (auto simp: take_sign_def digit_not_sign)

lemma strtoul_fmt_u:
  "strtoul (fmt_u n) = (if n < 2 ^ 64 then (of_nat n, False, []) else (- 1, True, []))"
proof -
  have 1: "dropWhile is_space (fmt_u n) = fmt_u n"
    using hd_fmt_u [of n] digit_not_space by (cases "fmt_u n") auto
  have 2: "takeWhile is_digit (fmt_u n) = fmt_u n" "dropWhile is_digit (fmt_u n) = []"
    by (simp_all add: takeWhile_eq_all_conv dropWhile_eq_Nil_conv fmt_u_digits)
  have "take_sign (dropWhile is_space (fmt_u n)) = (Plus, fmt_u n)"
    using hd_fmt_u [of n] by (simp add: 1 take_sign_digit)
  then show ?thesis by (simp only: strtoul_def Let_def split 2) simp
qed

section \<open>Reading files\<close>

text \<open>
  \<open>fgets(buf, n, f)\<close> on the unread bytes: at most \<open>n - 1\<close> bytes, stopping after a newline; \<open>None\<close>
  at the end of the file.
\<close>

fun upto_newline :: "string \<Rightarrow> string" where
  "upto_newline [] = []"
| "upto_newline (c # cs) = (if c = newline then [c] else c # upto_newline cs)"

definition fgets :: "nat \<Rightarrow> string \<Rightarrow> (string \<times> string) option" where
  "fgets n s = (if s = [] \<or> n \<le> 1 then None
     else let chunk = upto_newline (take (n - 1) s) in Some (chunk, drop (length chunk) s))"

lemma upto_newline_prefix: "prefix (upto_newline s) s"
  by (induction s) auto

lemma upto_newline_nonempty: "s \<noteq> [] \<Longrightarrow> upto_newline s \<noteq> []"
  by (cases s) auto

lemma fgets_SomeD:
  assumes "fgets n s = Some (l, r)"
  shows "s = l @ r" and "l \<noteq> []" and "length l < n"
proof -
  from assms have s: "s \<noteq> []" "1 < n" and l: "l = upto_newline (take (n - 1) s)"
    and r: "r = drop (length l) s"
    by (auto simp: fgets_def Let_def split: if_splits)
  have p: "prefix l (take (n - 1) s)" using upto_newline_prefix l by simp
  then have "prefix l s" by (meson prefix_order.trans take_is_prefix)
  then show "s = l @ r" using r by (auto simp: prefix_def)
  show "l \<noteq> []" using s l upto_newline_nonempty by auto
  have "length l \<le> n - 1" using prefix_length_le [OF p] by simp
  then show "length l < n" using s by simp
qed

lemma fgets_shrinks: "fgets n s = Some (l, r) \<Longrightarrow> length r < length s"
  using fgets_SomeD [of n s l r] by simp

text \<open>All the lines a \<open>while (fgets(...))\<close> loop sees; the bytes consumed shrink each time.\<close>

function fgets_lines :: "nat \<Rightarrow> string \<Rightarrow> string list" where
  "fgets_lines n s = (case fgets n s of None \<Rightarrow> [] | Some (l, r) \<Rightarrow> l # fgets_lines n r)"
  by pat_completeness auto
termination
  by (relation "measure (\<lambda>(n, s). length s)") (auto dest: fgets_shrinks)

declare fgets_lines.simps [simp del]

lemma upto_newline_line: "newline \<notin> set s \<Longrightarrow> upto_newline (s @ newline # r) = s @ [newline]"
  by (induction s) auto

lemma fgets_line:
  assumes "newline \<notin> set s" and "length s + 1 < n"
  shows "fgets n (s @ newline # r) = Some (s @ [newline], r)"
proof -
  have "take (n - 1) (s @ newline # r) = s @ newline # take (n - 1 - length s - 1) r"
    using assms(2) by (simp add: take_Cons' )
  then show ?thesis using assms by (simp add: fgets_def upto_newline_line)
qed

lemma concat_fgets_lines: "1 < n \<Longrightarrow> concat (fgets_lines n s) = s"
proof (induction n s rule: fgets_lines.induct)
  case (1 n s)
  show ?case
  proof (cases "fgets n s")
    case None
    then show ?thesis using "1.prems"
      by (subst fgets_lines.simps) (auto simp: fgets_def Let_def split: if_splits)
  next
    case (Some p)
    then obtain l r where lr: "fgets n s = Some (l, r)" by (cases p) auto
    then have "concat (fgets_lines n r) = r" using "1.IH" Some "1.prems" by auto
    then show ?thesis using lr fgets_SomeD(1) [OF lr] by (subst fgets_lines.simps) simp
  qed
qed

section \<open>Lists\<close>

lemma take_update_last [table_simps]:
  "n < length xs \<Longrightarrow> take (Suc n) (xs[n := x]) = take n xs @ [x]"
  by (simp add: take_Suc_conv_app_nth)

lemma take_update_beyond [table_simps]: "n \<le> i \<Longrightarrow> take n (xs[i := x]) = take n xs"
  by (metis length_take linorder_not_less list_update_beyond min.coboundedI2 min.cobounded2 take_update_swap order.trans)

text \<open>
  A loop \<open>for (i = n; i > 0; i--)\<close> over the indices below \<open>n\<close> that returns at the first hit, and a
  call whose failure leaves the state alone and is not looked at.
\<close>

fun scan_down :: "(nat \<Rightarrow> 'b option) \<Rightarrow> nat \<Rightarrow> 'b option" where
  "scan_down f 0 = None"
| "scan_down f (Suc n) = (case f n of Some r \<Rightarrow> Some r | None \<Rightarrow> scan_down f n)"

fun first_index :: "('a \<Rightarrow> bool) \<Rightarrow> 'a list \<Rightarrow> nat option" where
  "first_index p [] = None"
| "first_index p (x # xs) = (if p x then Some 0 else map_option Suc (first_index p xs))"

definition attempt :: "('t \<Rightarrow> 't option) \<Rightarrow> 't \<Rightarrow> 't" where
  "attempt f t = (case f t of None \<Rightarrow> t | Some t' \<Rightarrow> t')"

lemma scan_down_None [table_simps]: "scan_down f n = None \<longleftrightarrow> (\<forall>i < n. f i = None)"
  by (induction n) (auto split: option.splits simp: less_Suc_eq)

lemma scan_down_Some:
  "scan_down f n = Some r \<longleftrightarrow> (\<exists>i < n. f i = Some r \<and> (\<forall>j < n. i < j \<longrightarrow> f j = None))"
proof (induction n)
  case (Suc n)
  show ?case
  proof (cases "f n")
    case None
    then show ?thesis using Suc by (auto simp: less_Suc_eq)
  next
    case (Some x)
    then show ?thesis by (auto simp: less_Suc_eq dest: spec [of _ n])
  qed
qed simp

lemma first_index_None [table_simps]: "first_index p xs = None \<longleftrightarrow> (\<forall>x \<in> set xs. \<not> p x)"
  by (induction xs) auto

lemma first_index_Some:
  "first_index p xs = Some i \<longleftrightarrow> i < length xs \<and> p (xs ! i) \<and> (\<forall>j < i. \<not> p (xs ! j))"
proof (induction xs arbitrary: i)
  case (Cons x xs)
  then show ?case by (cases i) (auto simp: less_Suc_eq_0_disj)
qed simp

lemma nth_zip_triple:
  "i < length a \<Longrightarrow> i < length b \<Longrightarrow> i < length c \<Longrightarrow> zip a (zip b c) ! i = (a ! i, b ! i, c ! i)"
  by simp

end
