(* ===== verification/Single.thy ===== *)
theory Single
  imports Prelude "HOL-Library.Countable"
begin

text \<open>
  The C type \<open>float\<close> as the load gauges use it: a non-negative number is the rational it stands for,
  and every operation is the exact one followed by rounding to 24 significant bits, to even in the
  middle.  The numbers that occur are zero or between \<open>2 ^ (- 64)\<close> and \<open>2 ^ 71\<close>, so that neither
  overflow nor a loss of precision near zero can arise.
\<close>

section \<open>Rounding\<close>

fun bit_count :: "nat \<Rightarrow> nat" where
  "bit_count n = (if n = 0 then 0 else Suc (bit_count (n div 2)))"

declare bit_count.simps [simp del]

text \<open>The exponent of the leading bit.\<close>

definition binade :: "rat \<Rightarrow> int" where
  "binade x =
     (if 1 \<le> x then int (bit_count (nat \<lfloor>x\<rfloor>)) - 1 else - int (bit_count (nat (\<lceil>1 / x\<rceil> - 1))))"

definition half_even :: "rat \<Rightarrow> int" where
  "half_even x =
     (let f = \<lfloor>x\<rfloor>; r = x - of_int f in if r < 1 / 2 \<or> r = 1 / 2 \<and> even f then f else f + 1)"

definition single :: "rat \<Rightarrow> rat" where
  "single x = (if x = 0 then 0
     else (let ulp = 2 powi (binade x - 23) in of_int (half_even (x / ulp)) * ulp))"

section \<open>Rounding is monotone\<close>

lemma bit_count_bounds: "0 < n \<Longrightarrow> 2 ^ (bit_count n - 1) \<le> n \<and> n < 2 ^ bit_count n \<and> 0 < bit_count n"
proof (induction n rule: bit_count.induct)
  case (1 n)
  show ?case
  proof (cases "n div 2 = 0")
    case True
    then show ?thesis using 1(2) by (auto simp: bit_count.simps [of n] bit_count.simps [of 0])
  next
    case False
    then have IH: "2 ^ (bit_count (n div 2) - 1) \<le> n div 2" "n div 2 < 2 ^ bit_count (n div 2)"
      "0 < bit_count (n div 2)" using 1 by simp_all
    have c: "bit_count n = Suc (bit_count (n div 2))" using 1(2) by (simp add: bit_count.simps [of n])
    have "2 * 2 ^ (bit_count (n div 2) - 1) = (2 :: nat) ^ bit_count (n div 2)"
      using IH(3) by (simp flip: power_Suc)
    moreover have "2 * (n div 2) \<le> n" "n \<le> 2 * (n div 2) + 1" by arith+
    ultimately have "2 ^ bit_count (n div 2) \<le> n" "n < 2 * 2 ^ bit_count (n div 2)"
      using IH by linarith+
    then show ?thesis using c by simp
  qed
qed

lemma bit_count_less: "n < 2 ^ bit_count n"
  using bit_count_bounds [of n] by (cases "n = 0") simp_all

lemma bit_count_rat:
  assumes "0 < n"
  shows "(2 :: rat) ^ (bit_count n - 1) \<le> of_nat n" and "rat_of_nat n + 1 \<le> 2 ^ bit_count n"
proof -
  note b = bit_count_bounds [OF assms]
  have "rat_of_nat (2 ^ (bit_count n - 1)) \<le> rat_of_nat n" using b by (simp only: of_nat_le_iff)
  moreover have "rat_of_nat (Suc n) \<le> rat_of_nat (2 ^ bit_count n)"
    using b by (simp only: of_nat_le_iff Suc_le_eq)
  ultimately show "(2 :: rat) ^ (bit_count n - 1) \<le> of_nat n" "rat_of_nat n + 1 \<le> 2 ^ bit_count n"
    unfolding of_nat_power of_nat_Suc by simp_all
qed

lemma binade_large:
  assumes "1 \<le> x"
  shows "2 powi binade x \<le> x \<and> x < 2 powi (binade x + 1)"
proof -
  define n where "n = nat \<lfloor>x\<rfloor>"
  have n: "0 < n" "rat_of_nat n \<le> x" "x < rat_of_nat n + 1"
    using assms floor_correct [of x] by (simp_all add: n_def le_floor_iff)
  note b = bit_count_bounds [OF n(1)]
  have e: "binade x = int (bit_count n - 1)" using assms b by (simp add: binade_def n_def of_nat_diff)
  have "2 powi (binade x + 1) = (2 :: rat) ^ bit_count n" using b e by simp
  moreover have "2 powi binade x = (2 :: rat) ^ (bit_count n - 1)" unfolding e by (rule power_int_of_nat)
  ultimately show ?thesis using n(2,3) bit_count_rat [OF n(1)] by linarith
qed

lemma binade_small:
  assumes "0 < x" and "x < 1"
  shows "2 powi binade x \<le> x \<and> x < 2 powi (binade x + 1)"
proof -
  define n where "n = nat (\<lceil>1 / x\<rceil> - 1)"
  have "1 < 1 / x" using assms by simp
  then have c: "0 < \<lceil>1 / x\<rceil> - 1" by (simp add: less_ceiling_iff)
  then have "0 \<le> \<lceil>1 / x\<rceil> - 1" by linarith
  from of_nat_nat [OF this] have i: "rat_of_nat n = of_int \<lceil>1 / x\<rceil> - 1" unfolding n_def by simp
  have n: "0 < n" unfolding n_def using c by linarith
  have near: "rat_of_nat n < 1 / x" "1 / x \<le> rat_of_nat n + 1"
    using ceiling_correct [of "1 / x"] unfolding i by simp_all
  note b = bit_count_bounds [OF n]
  have e: "binade x = - int (bit_count n)" using assms(2) by (simp add: binade_def n_def)
  have "binade x + 1 = - int (bit_count n - 1)" using b e by (simp add: of_nat_diff)
  then have "2 powi (binade x + 1) = 1 / (2 :: rat) ^ (bit_count n - 1)"
    by (simp add: power_int_minus divide_inverse)
  moreover have "2 powi binade x = 1 / (2 :: rat) ^ bit_count n"
    using e by (simp add: power_int_minus divide_inverse)
  moreover have "2 ^ (bit_count n - 1) < 1 / x" "1 / x \<le> 2 ^ bit_count n"
    using bit_count_rat [OF n] near by linarith+
  then have "1 / (2 :: rat) ^ bit_count n \<le> x" "x < 1 / (2 :: rat) ^ (bit_count n - 1)"
    using assms(1) by (simp_all add: field_simps)
  ultimately show ?thesis by simp
qed

lemma binade_bounds:
  assumes "0 < x"
  shows "2 powi binade x \<le> x" and "x < 2 powi (binade x + 1)"
  using binade_large [of x] binade_small [OF assms] by (cases "1 \<le> x"; simp)+

lemma powi_less:
  assumes "(2 :: rat) powi m < 2 powi n"
  shows "m < n"
proof (rule ccontr)
  assume "\<not> m < n"
  then have "(2 :: rat) powi n \<le> 2 powi m" by (intro power_int_increasing) simp_all
  then show False using assms by simp
qed

lemma half_even_near: "half_even x = \<lfloor>x\<rfloor> \<or> half_even x = \<lfloor>x\<rfloor> + 1"
  by (simp add: half_even_def Let_def)

lemma half_even_int [simp]: "half_even (of_int n) = n"
  by (simp add: half_even_def)

lemma half_even_mono:
  assumes "x \<le> y"
  shows "half_even x \<le> half_even y"
proof (cases "\<lfloor>x\<rfloor> = \<lfloor>y\<rfloor>")
  case True
  then show ?thesis using assms by (auto simp: half_even_def Let_def)
next
  case False
  then have "\<lfloor>x\<rfloor> + 1 \<le> \<lfloor>y\<rfloor>" using floor_mono [OF assms] by simp
  then show ?thesis using half_even_near [of x] half_even_near [of y] by linarith
qed

lemma half_even_between: "of_int a \<le> x \<Longrightarrow> x \<le> of_int b \<Longrightarrow> a \<le> half_even x \<and> half_even x \<le> b"
  using half_even_mono [of "of_int a" x] half_even_mono [of x "of_int b"] by simp

lemma single_binade:
  assumes "0 < x"
  shows "2 powi binade x \<le> single x" and "single x \<le> 2 powi (binade x + 1)"
proof -
  define u :: rat where "u = 2 powi (binade x - 23)"
  have u: "0 < u" by (simp add: u_def)
  have lo: "2 powi binade x = 2 ^ 23 * u" and hi: "2 powi (binade x + 1) = 2 ^ 24 * u"
    by (simp_all add: u_def power_int_diff power_int_add)
  have "2 ^ 23 \<le> x / u" "x / u \<le> 2 ^ 24"
    using binade_bounds [OF assms] u unfolding lo hi by (simp_all add: field_simps)
  then have "2 ^ 23 \<le> half_even (x / u) \<and> half_even (x / u) \<le> 2 ^ 24"
    by (intro half_even_between) simp_all
  then have "(of_int (2 ^ 23) :: rat) \<le> of_int (half_even (x / u))"
    "of_int (half_even (x / u)) \<le> (of_int (2 ^ 24) :: rat)"
    by (simp_all only: of_int_le_iff)
  then have "2 ^ 23 * u \<le> of_int (half_even (x / u)) * u" "of_int (half_even (x / u)) * u \<le> 2 ^ 24 * u"
    using u by simp_all
  moreover have "single x = of_int (half_even (x / u)) * u" using assms by (simp add: single_def u_def Let_def)
  ultimately show "2 powi binade x \<le> single x" "single x \<le> 2 powi (binade x + 1)"
    unfolding lo hi by simp_all
qed

lemma single_zero [simp]: "single 0 = 0" by (simp add: single_def)

lemma single_nonneg [simp]:
  assumes "0 \<le> x"
  shows "0 \<le> single x"
proof (cases "x = 0")
  case False
  have "(0 :: rat) < 2 powi binade x" by simp
  then show ?thesis using single_binade(1) [of x] assms False by linarith
qed simp

lemma single_mono:
  assumes "0 \<le> x" and "x \<le> y"
  shows "single x \<le> single y"
proof (cases "x = 0")
  case False
  then have p: "0 < x" "0 < y" using assms by simp_all
  have "(2 :: rat) powi binade x < 2 powi (binade y + 1)"
    using binade_bounds(1) [OF p(1)] binade_bounds(2) [OF p(2)] assms(2) by linarith
  then have le: "binade x \<le> binade y" using powi_less by fastforce
  show ?thesis
  proof (cases "binade x = binade y")
    case True
    have "x / 2 powi (binade y - 23) \<le> y / 2 powi (binade y - 23)"
      using assms(2) by (simp add: divide_right_mono)
    then show ?thesis
      using p True half_even_mono by (simp add: single_def Let_def mult_right_mono)
  next
    case False
    then have "(2 :: rat) powi (binade x + 1) \<le> 2 powi binade y"
      using le by (intro power_int_increasing) simp_all
    then show ?thesis using single_binade(2) [OF p(1)] single_binade(1) [OF p(2)] by linarith
  qed
qed (use assms in simp)

text \<open>Integers of at most 24 bits are exact.\<close>

lemma single_nat:
  assumes "n < 2 ^ 24"
  shows "single (of_nat n) = of_nat n"
proof (cases "n = 0")
  case False
  then have p: "(0 :: rat) < of_nat n" by simp
  have "rat_of_nat n < rat_of_nat (2 ^ 24)" using assms by (simp only: of_nat_less_iff)
  then have "(2 :: rat) powi binade (of_nat n) < 2 powi 24"
    using binade_bounds(1) [OF p] by simp
  then have e: "binade (of_nat n) \<le> 23" using powi_less by fastforce
  define k where "k = nat (23 - binade (of_nat n))"
  have k: "binade (of_nat n) - 23 = - int k" using e by (simp add: k_def)
  have "rat_of_nat n / 2 powi (- int k) = of_int (int n * 2 ^ k)"
    by (simp add: power_int_minus divide_inverse)
  then have "single (of_nat n) = of_int (int n * 2 ^ k) * 2 powi (- int k)"
    unfolding single_def Let_def k using False by (simp only: half_even_int of_nat_eq_0_iff if_False)
  then show ?thesis by (simp add: power_int_minus)
qed simp

lemma single_numeral: "numeral k < (2 :: nat) ^ 24 \<Longrightarrow> single (numeral k) = numeral k"
  using single_nat [of "numeral k"] by simp

lemma single_one [simp]: "single 1 = 1" using single_nat [of 1] by simp

end
