(* ===== verification/Telemetry.thy ===== *)
theory Telemetry
  imports Single
begin

text \<open>
  The daemon's in-memory telemetry (\<open>dev/host/asic_telemetry.h\<close>, \<open>dev/host/asic_telemetry.c\<close>): event
  counters, which are C \<open>int\<close>s, the ring of the last 64 alerts, the ring of the last 32 event lines and
  the two load gauges, which are C floats.  The positions and the count of the rings, also \<open>int\<close>s of
  the code, never exceed 64 (\<open>wf_telemetry\<close>) and are natural numbers.  Both rings are instances of one interface, \<open>ring_buffer\<close>, in which
  what a reader finds behind the write position is proved once.
\<close>

definition MAX_ALERTS :: nat where [simp]: "MAX_ALERTS = 64"
definition MAX_RECENT_EVENTS :: nat where [simp]: "MAX_RECENT_EVENTS = 32"
definition MAX_EVENT_MESSAGE :: nat where [simp]: "MAX_EVENT_MESSAGE = 512"

record asic_alert =
  al_timestamp :: string
  al_source :: string
  al_message :: string
  al_level :: int

definition zero_alert :: asic_alert where
  "zero_alert = \<lparr>al_timestamp = [], al_source = [], al_message = [], al_level = 0\<rparr>"

record asic_telemetry =
  host_cpu :: rat
  host_ram :: rat
  exec_events :: c_int
  mem_events :: c_int
  file_events :: c_int
  net_events :: c_int
  suspicious_events :: c_int
  alerts :: "asic_alert list"
  alert_count :: nat
  alert_head :: nat
  recent_events :: "string list"
  recent_head :: nat

text \<open>\<open>asic_telemetry_t g_telemetry = {0}\<close>.\<close>

definition init_telemetry :: asic_telemetry where
  "init_telemetry = \<lparr>host_cpu = 0, host_ram = 0, exec_events = 0, mem_events = 0, file_events = 0, net_events = 0,
     suspicious_events = 0, alerts = replicate MAX_ALERTS zero_alert, alert_count = 0,
     alert_head = 0, recent_events = replicate MAX_RECENT_EVENTS [], recent_head = 0\<rparr>"

text \<open>
  The broken-down local time \<open>localtime\<close> returns (hours, minutes, seconds), \<open>None\<close> for its null
  pointer, and \<open>strftime\<close> with \<open>"%H:%M:%S"\<close> into the 16-byte field.
\<close>

type_synonym wall_clock = "(nat \<times> nat \<times> nat) option"

definition format_clock :: "wall_clock \<Rightarrow> string" where
  "format_clock t = (case t of
     Some (h, m, s) \<Rightarrow> pad0 2 (fmt_u h) @ '':'' @ pad0 2 (fmt_u m) @ '':'' @ pad0 2 (fmt_u s)
   | None \<Rightarrow> snprintf_s 16 ''--:--:--'')"

definition add_alert ::
  "wall_clock \<Rightarrow> string \<Rightarrow> string \<Rightarrow> int \<Rightarrow> asic_telemetry \<Rightarrow> asic_telemetry" where
  "add_alert now source msg level g =
     (let a = \<lparr>al_timestamp = format_clock now, al_source = snprintf_s 16 source,
               al_message = snprintf_s MAX_EVENT_MESSAGE msg, al_level = level\<rparr>
      in g\<lparr>alerts := (alerts g)[alert_head g := a],
           alert_head := (alert_head g + 1) mod MAX_ALERTS,
           alert_count := (if alert_count g < MAX_ALERTS then alert_count g + 1
                           else alert_count g)\<rparr>)"

definition add_traffic :: "string \<Rightarrow> asic_telemetry \<Rightarrow> asic_telemetry" where
  "add_traffic msg g = g\<lparr>
     recent_events := (recent_events g)[recent_head g := snprintf_s MAX_EVENT_MESSAGE msg],
     recent_head := (recent_head g + 1) mod MAX_RECENT_EVENTS\<rparr>"

text \<open>
  The members of \<open>struct sysinfo\<close> the gauges are computed from: the load average as a number with
  \<open>SI_LOAD_SHIFT\<close> fractional bits, and the memory.
\<close>

record sys_info =
  si_load :: u64
  si_totalram :: u64
  si_freeram :: u64

definition SI_LOAD_SHIFT :: nat where "SI_LOAD_SHIFT = 16"

text \<open>\<open>None\<close> stands for a failing call of \<open>sysinfo\<close>.\<close>

definition update_telemetry_stats :: "sys_info option \<Rightarrow> asic_telemetry \<Rightarrow> asic_telemetry" where
  "update_telemetry_stats info g =
     (case info of
        None \<Rightarrow> g
      | Some info \<Rightarrow>
          if si_totalram info = 0 then g
          else
            (let cpu = single (single (single (single (of_nat (unat (si_load info))) /
                   single (of_nat (2 ^ SI_LOAD_SHIFT))) * 100) / 8);
                 ram = single (single (single (of_nat (unat (si_totalram info - si_freeram info))) /
                   single (of_nat (unat (si_totalram info)))) * 100)
             in g\<lparr>host_cpu := (if 100 < cpu then 100 else cpu), host_ram := ram\<rparr>))"

definition wf_telemetry :: "asic_telemetry \<Rightarrow> bool" where
  "wf_telemetry g \<longleftrightarrow>
     length (alerts g) = MAX_ALERTS \<and> alert_head g < MAX_ALERTS \<and> alert_count g \<le> MAX_ALERTS \<and>
     length (recent_events g) = MAX_RECENT_EVENTS \<and> recent_head g < MAX_RECENT_EVENTS"

lemma wf_init_telemetry [simp]: "wf_telemetry init_telemetry"
  by (simp add: wf_telemetry_def init_telemetry_def)

lemma wf_add_alert [simp]: "wf_telemetry g \<Longrightarrow> wf_telemetry (add_alert t s m l g)"
  by (auto simp: wf_telemetry_def add_alert_def Let_def)

lemma wf_add_traffic [simp]: "wf_telemetry g \<Longrightarrow> wf_telemetry (add_traffic m g)"
  by (auto simp: wf_telemetry_def add_traffic_def)

section \<open>The ring interface\<close>

text \<open>The slot \<open>k\<close> places behind the write position \<open>h\<close> of a ring of \<open>cap\<close> slots.\<close>

definition behind_slot :: "nat \<Rightarrow> 'a list \<Rightarrow> nat \<Rightarrow> nat \<Rightarrow> 'a" where
  "behind_slot cap ring h k = ring ! ((h + (cap - 1 - k)) mod cap)"

locale ring_buffer =
  fixes cap :: nat
    and inv :: "'s \<Rightarrow> bool"
    and slots :: "'s \<Rightarrow> 'a list"
    and head :: "'s \<Rightarrow> nat"
    and push :: "'i \<Rightarrow> 's \<Rightarrow> 's"
    and stored :: "'i \<Rightarrow> 'a"
  assumes slots_length: "inv s \<Longrightarrow> length (slots s) = cap"
    and head_bound: "inv s \<Longrightarrow> head s < cap"
    and inv_push: "inv s \<Longrightarrow> inv (push x s)"
    and slots_push: "inv s \<Longrightarrow> slots (push x s) = (slots s)[head s := stored x]"
    and head_push: "inv s \<Longrightarrow> head (push x s) = (head s + 1) mod cap"
begin

lemma inv_pushes: "inv s \<Longrightarrow> inv (fold push xs s)"
  by (induction xs arbitrary: s) (auto intro: inv_push)

lemma behind_push_0: "inv s \<Longrightarrow> behind_slot cap (slots (push x s)) (head (push x s)) 0 = stored x"
proof -
  assume s: "inv s"
  have b: "head s < cap" by (rule head_bound [OF s])
  have "((head s + 1) mod cap + (cap - 1 - 0)) mod cap = (head s + 1 + (cap - 1)) mod cap"
    by (simp only: mod_add_left_eq diff_zero)
  also have "head s + 1 + (cap - 1) = head s + cap" using b by simp
  finally have "((head s + 1) mod cap + (cap - 1 - 0)) mod cap = head s" using b by simp
  then have "behind_slot cap (slots (push x s)) (head (push x s)) 0 = slots (push x s) ! head s"
    using s by (simp only: behind_slot_def head_push)
  then show ?thesis using s b by (simp add: slots_push slots_length)
qed

lemma behind_push_Suc:
  assumes s: "inv s" and k: "Suc k < cap"
  shows "behind_slot cap (slots (push x s)) (head (push x s)) (Suc k)
       = behind_slot cap (slots s) (head s) k"
proof -
  have b: "head s < cap" by (rule head_bound [OF s])
  have e: "((head s + 1) mod cap + (cap - 1 - Suc k)) mod cap = (head s + (cap - 1 - k)) mod cap"
  proof -
    have "((head s + 1) mod cap + (cap - 1 - Suc k)) mod cap
        = (head s + 1 + (cap - 1 - Suc k)) mod cap" by (simp only: mod_add_left_eq)
    also have "head s + 1 + (cap - 1 - Suc k) = head s + (cap - 1 - k)" using k by simp
    finally show ?thesis .
  qed
  have "(head s + (cap - 1 - k)) mod cap \<noteq> head s"
  proof (cases "head s + (cap - 1 - k) < cap")
    case True
    then show ?thesis using k by simp
  next
    case False
    then have "(head s + (cap - 1 - k)) mod cap = head s + (cap - 1 - k) - cap"
      using b by (subst le_mod_geq) auto
    also have "\<dots> < head s" using False k by arith
    finally show ?thesis by simp
  qed
  then show ?thesis
    using s by (simp only: behind_slot_def head_push slots_push e nth_list_update_neq)
qed

theorem behind_pushes:
  "inv s \<Longrightarrow> k < length xs \<Longrightarrow> k < cap \<Longrightarrow>
     behind_slot cap (slots (fold push xs s)) (head (fold push xs s)) k
       = stored (xs ! (length xs - 1 - k))"
proof (induction xs arbitrary: k rule: rev_induct)
  case (snoc x xs)
  have i: "inv (fold push xs s)" using snoc.prems(1) by (rule inv_pushes)
  show ?case
  proof (cases k)
    case 0
    then show ?thesis using i by (simp add: behind_push_0)
  next
    case (Suc j)
    then have "j < length xs" "j < cap" using snoc.prems by auto
    then have "behind_slot cap (slots (fold push xs s)) (head (fold push xs s)) j
        = stored (xs ! (length xs - 1 - j))"
      using snoc by blast
    moreover have "(xs @ [x]) ! (length (xs @ [x]) - 1 - k) = xs ! (length xs - 1 - j)"
      using Suc \<open>j < length xs\<close> by (simp add: nth_append) arith
    ultimately show ?thesis
      using Suc i snoc.prems(3) by (simp add: behind_push_Suc)
  qed
qed simp

end

section \<open>The two rings\<close>

text \<open>What one alert call passes, and the record it stores.\<close>

type_synonym alert_call = "wall_clock \<times> string \<times> string \<times> int"

definition push_alert :: "alert_call \<Rightarrow> asic_telemetry \<Rightarrow> asic_telemetry" where
  "push_alert c g = (case c of (t, s, m, l) \<Rightarrow> add_alert t s m l g)"

definition alert_of :: "alert_call \<Rightarrow> asic_alert" where
  "alert_of c = (case c of (t, s, m, l) \<Rightarrow> \<lparr>al_timestamp = format_clock t,
     al_source = snprintf_s 16 s, al_message = snprintf_s MAX_EVENT_MESSAGE m, al_level = l\<rparr>)"

interpretation alert_ring:
  ring_buffer MAX_ALERTS wf_telemetry alerts alert_head push_alert alert_of
  by unfold_locales
    (auto simp: wf_telemetry_def push_alert_def alert_of_def add_alert_def Let_def)

interpretation traffic_ring:
  ring_buffer MAX_RECENT_EVENTS wf_telemetry recent_events recent_head add_traffic
    "snprintf_s MAX_EVENT_MESSAGE"
  by unfold_locales (auto simp: wf_telemetry_def add_traffic_def)

lemma alert_count_pushes:
  "alert_count g \<le> MAX_ALERTS \<Longrightarrow>
     alert_count (fold push_alert cs g) = min MAX_ALERTS (alert_count g + length cs)"
  by (induction cs arbitrary: g) (auto simp: push_alert_def add_alert_def Let_def)

text \<open>
  C36.  The alert ring holds the newest alerts: after any sequence of alerts, the slot \<open>k\<close> places
  behind the head (for \<open>k\<close> below 64 and below the number raised) is the \<open>k\<close>-th newest, with its
  source and message cut to their fields; and the count is the number raised, capped at 64.
\<close>

theorem alert_ring_keeps_newest:
  assumes "wf_telemetry g" and "k < length cs" and "k < MAX_ALERTS"
  shows "behind_slot MAX_ALERTS (alerts (fold push_alert cs g)) (alert_head (fold push_alert cs g)) k
         = alert_of (cs ! (length cs - 1 - k)) \<and>
         alert_count (fold push_alert cs g) = min MAX_ALERTS (alert_count g + length cs)"
  using alert_ring.behind_pushes [OF assms] assms(1) alert_count_pushes [of g cs]
  unfolding wf_telemetry_def by blast

lemma alert_ring_keeps_newest_witness:
  "behind_slot MAX_ALERTS
     (alerts (fold push_alert [(None, ''EDR'', ''a'', 1), (None, ''EDR'', ''b'', 2)] init_telemetry))
     (alert_head (fold push_alert [(None, ''EDR'', ''a'', 1), (None, ''EDR'', ''b'', 2)] init_telemetry)) 1
   = alert_of (None, ''EDR'', ''a'', 1)"
  using alert_ring_keeps_newest [of init_telemetry 1
      "[(None, ''EDR'', ''a'', 1), (None, ''EDR'', ''b'', 2)]"] by simp

section \<open>The load gauges\<close>

definition gauges_ok :: "asic_telemetry \<Rightarrow> bool" where
  "gauges_ok g \<longleftrightarrow> 0 \<le> host_cpu g \<and> host_cpu g \<le> 100 \<and> 0 \<le> host_ram g \<and> host_ram g \<le> 100"

text \<open>A share of a whole, rounded at every step, stays a share.\<close>

lemma single_percentage:
  assumes "0 < t" and "u \<le> t"
  shows "single (single (single (of_nat u) / single (of_nat t)) * 100) \<le> 100"
proof -
  have t: "1 \<le> single (of_nat t)" using single_mono [of 1 "of_nat t"] assms(1) by simp
  have "single (of_nat u) \<le> single (of_nat t)" using assms(2) by (intro single_mono) simp_all
  then have "single (of_nat u) / single (of_nat t) \<le> 1" using t by (simp add: divide_le_eq_1)
  then have "single (single (of_nat u) / single (of_nat t)) \<le> single 1"
    using t by (intro single_mono) simp_all
  then have "single (single (single (of_nat u) / single (of_nat t)) * 100) \<le> single 100"
    using t by (intro single_mono) simp_all
  then show ?thesis by (simp add: single_numeral)
qed

lemma single_positive_terms:
  "0 \<le> single (single (single (of_nat u) / single (of_nat t)) * 100)"
  "0 \<le> single (single (single (single (of_nat u) / single (of_nat t)) * 100) / 8)"
  by simp_all

lemma gauges_ok_update:
  assumes "gauges_ok g" and "case info of None \<Rightarrow> True | Some s \<Rightarrow> si_freeram s \<le> si_totalram s"
  shows "gauges_ok (update_telemetry_stats info g)"
proof (cases info)
  case (Some s)
  then have le: "unat (si_totalram s - si_freeram s) \<le> unat (si_totalram s)"
    using assms(2) by (simp add: unat_sub)
  have "0 < unat (si_totalram s)" if "si_totalram s \<noteq> 0" using that by (simp add: unat_gt_0)
  then show ?thesis
    using assms(1) Some single_percentage [OF _ le]
      single_positive_terms(1) [of "unat (si_totalram s - si_freeram s)" "unat (si_totalram s)"]
      single_positive_terms(2) [of "unat (si_load s)" "2 ^ SI_LOAD_SHIFT"]
    by (auto simp: update_telemetry_stats_def gauges_ok_def Let_def)
qed (use assms(1) in \<open>simp add: update_telemetry_stats_def\<close>)

text \<open>
  C25.  The load gauges are percentages: however often they are updated, and although every operation
  rounds to single precision, both stay between 0 and 100, as long as the kernel never reports more
  free memory than there is.
\<close>

theorem gauges_in_percent:
  assumes "\<forall>info \<in> set infos. case info of None \<Rightarrow> True | Some s \<Rightarrow> si_freeram s \<le> si_totalram s"
  shows "let g = fold update_telemetry_stats infos init_telemetry in
    0 \<le> host_cpu g \<and> host_cpu g \<le> 100 \<and> 0 \<le> host_ram g \<and> host_ram g \<le> 100"
proof -
  have "gauges_ok g \<Longrightarrow> gauges_ok (fold update_telemetry_stats infos g)" for g
    using assms by (induction infos arbitrary: g) (simp_all add: gauges_ok_update)
  moreover have "gauges_ok init_telemetry" by (simp add: gauges_ok_def init_telemetry_def)
  ultimately show ?thesis by (simp add: gauges_ok_def Let_def)
qed

theorem gauges_in_percent_witness:
  "let g = update_telemetry_stats (Some \<lparr>si_load = 1000000, si_totalram = 3, si_freeram = 1\<rparr>) init_telemetry
   in host_cpu g \<le> 100 \<and> host_ram g \<le> 100"
  using gauges_in_percent [of "[Some \<lparr>si_load = 1000000, si_totalram = 3, si_freeram = 1\<rparr>]"]
  by (simp add: Let_def)

end
