(* ===== verification/Common.thy ===== *)
theory Common
  imports Prelude
begin

text \<open>
  The event record the sensor and the daemon share (\<open>dev/host/asic_common.h\<close>, identical in layout
  to \<open>dev/sensors/asic_common.h\<close>): the event type codes, \<open>struct edr_event\<close> and what it means for
  one to be well formed.  Character arrays are held as the C string stored in them; the integer
  fields keep their width.
\<close>

definition EDR_EVENT_EXEC :: u32 where [simp]: "EDR_EVENT_EXEC = 1"
definition EDR_EVENT_MPROTECT :: u32 where [simp]: "EDR_EVENT_MPROTECT = 2"
definition EDR_EVENT_MMAP :: u32 where [simp]: "EDR_EVENT_MMAP = 3"
definition EDR_EVENT_OPENAT :: u32 where [simp]: "EDR_EVENT_OPENAT = 4"
definition EDR_EVENT_CONNECT :: u32 where [simp]: "EDR_EVENT_CONNECT = 5"

definition EDR_MAX_TARGET :: nat where [simp]: "EDR_MAX_TARGET = 256"

text \<open>The size of the \<open>comm\<close> arrays.\<close>

definition COMM_LEN :: nat where [simp]: "COMM_LEN = 16"

record edr_event =
  e_type :: u32
  e_pid :: u32
  e_tid :: u32
  e_ppid :: u32
  e_uid :: u32
  e_gid :: u32
  e_flags :: u32
  e_prot :: u32
  e_net_family :: u32
  e_net_addr_v4 :: u32
  e_net_port :: u16
  e_net_addr_v6 :: "u8 list"
  e_timestamp_ns :: u64
  e_comm :: string
  e_target :: string

text \<open>\<open>memset(e, 0, sizeof(*e))\<close>.\<close>

definition zero_event :: edr_event where
  "zero_event = \<lparr>e_type = 0, e_pid = 0, e_tid = 0, e_ppid = 0, e_uid = 0, e_gid = 0,
     e_flags = 0, e_prot = 0, e_net_family = 0, e_net_addr_v4 = 0, e_net_port = 0,
     e_net_addr_v6 = replicate 16 0, e_timestamp_ns = 0, e_comm = [], e_target = []\<rparr>"

text \<open>
  \<open>sizeof(struct edr_event)\<close>: ten 32-bit fields, the port, the 16-byte address, 6 reserved bytes
  aligning the 64-bit timestamp, the timestamp and the two character arrays.
\<close>

definition sizeof_edr_event :: nat where
  "sizeof_edr_event = 10 * 4 + 2 + 16 + 6 + 8 + COMM_LEN + EDR_MAX_TARGET"

definition wf_event :: "edr_event \<Rightarrow> bool" where
  "wf_event e \<longleftrightarrow> is_cstr (e_comm e) \<and> length (e_comm e) < COMM_LEN \<and>
     is_cstr (e_target e) \<and> length (e_target e) < EDR_MAX_TARGET \<and>
     length (e_net_addr_v6 e) = 16"

lemma wf_event_zero [simp]: "wf_event zero_event"
  by (simp add: wf_event_def zero_event_def is_cstr_def)

lemma sizeof_edr_event_value: "sizeof_edr_event = 344"
  by (simp add: sizeof_edr_event_def)

text \<open>Little-endian loads of the platforms the agent is built for (x86-64, bpfel).\<close>

definition le16 :: "u8 \<Rightarrow> u8 \<Rightarrow> u16" where
  "le16 b0 b1 = ucast b0 + 256 * ucast b1"

definition le32 :: "u8 \<Rightarrow> u8 \<Rightarrow> u8 \<Rightarrow> u8 \<Rightarrow> u32" where
  "le32 b0 b1 b2 b3 = ucast b0 + 256 * ucast b1 + 65536 * ucast b2 + 16777216 * ucast b3"

lemma unat_le16: "unat (le16 b0 b1) = unat b0 + 256 * unat b1"
proof -
  have "unat b0 < 256" "unat b1 < 256" by (rule unat_u8_less)+
  then show ?thesis
    by (simp add: le16_def unat_word_ariths unsigned_ucast_eq take_bit_nat_eq_self)
qed

lemma unat_le32:
  "unat (le32 b0 b1 b2 b3) = unat b0 + 256 * unat b1 + 65536 * unat b2 + 16777216 * unat b3"
proof -
  have "unat b0 < 256" "unat b1 < 256" "unat b2 < 256" "unat b3 < 256"
    by (rule unat_u8_less)+
  then show ?thesis
    by (simp add: le32_def unat_word_ariths unsigned_ucast_eq take_bit_nat_eq_self)
qed

lemma unat_le32_nested:
  "unat (le32 b0 b1 b2 b3) = unat b0 + 256 * (unat b1 + 256 * (unat b2 + 256 * unat b3))"
  by (simp add: unat_le32)

end
