(* ===== verification/Sensor.thy ===== *)
theory Sensor
  imports Common
begin

text \<open>
  The eBPF sensor (\<open>dev/sensors/asic_sensor.bpf.c\<close>): one tracepoint program per system call, each
  filling one \<open>struct edr_event\<close> and submitting it to the ring buffer.  The kernel helpers the
  programs call are not code of this repository; they are the fields of \<open>bpf_env\<close>, and
  \<open>bpf_helpers_ok\<close> states what the helpers' documentation promises about their results.
\<close>

definition EDR_AF_INET :: u16 where [simp]: "EDR_AF_INET = 2"
definition EDR_AF_INET6 :: u16 where [simp]: "EDR_AF_INET6 = 10"

text \<open>
  The kernel at one program run: whether \<open>bpf_ringbuf_reserve\<close> finds room, the current task's
  identity, the clock, and the two user-memory readers (\<open>None\<close> when the helper fails).
\<close>

record bpf_env =
  bpf_reserve :: bool
  bpf_pid_tgid :: u64
  bpf_uid_gid :: u64
  bpf_ktime_ns :: u64
  bpf_current_comm :: "nat \<Rightarrow> string"
  bpf_read_user :: "u64 \<Rightarrow> nat \<Rightarrow> u8 list option"
  bpf_read_user_str :: "u64 \<Rightarrow> nat \<Rightarrow> string option"

definition bpf_helpers_ok :: "bpf_env \<Rightarrow> bool" where
  "bpf_helpers_ok k \<longleftrightarrow>
     (\<forall>n > 0. is_cstr (bpf_current_comm k n) \<and> length (bpf_current_comm k n) < n) \<and>
     (\<forall>a n bs. bpf_read_user k a n = Some bs \<longrightarrow> length bs = n) \<and>
     (\<forall>a n s. bpf_read_user_str k a n = Some s \<longrightarrow> is_cstr s \<and> length s < n)"

text \<open>\<open>struct trace_event_raw_sys_enter\<close>: the six system call arguments.\<close>

record trace_ctx =
  ctx_args :: "u64 list"

definition ctx_arg :: "trace_ctx \<Rightarrow> nat \<Rightarrow> u64" where
  "ctx_arg ctx i = ctx_args ctx ! i"

definition wf_ctx :: "trace_ctx \<Rightarrow> bool" where
  "wf_ctx ctx \<longleftrightarrow> length (ctx_args ctx) = 6"

definition fill_task_identity :: "bpf_env \<Rightarrow> edr_event \<Rightarrow> edr_event" where
  "fill_task_identity k e = e\<lparr>
     e_pid := ucast (drop_bit 32 (bpf_pid_tgid k)),
     e_tid := ucast (bpf_pid_tgid k),
     e_uid := ucast (bpf_uid_gid k),
     e_gid := ucast (drop_bit 32 (bpf_uid_gid k)),
     e_timestamp_ns := bpf_ktime_ns k,
     e_comm := bpf_current_comm k COMM_LEN\<rparr>"

text \<open>\<open>bpf_probe_read_user_str(&e->target, ...)\<close>: on failure the zeroed array stays empty.\<close>

definition read_target :: "bpf_env \<Rightarrow> u64 \<Rightarrow> edr_event \<Rightarrow> edr_event" where
  "read_target k addr e = (case bpf_read_user_str k addr EDR_MAX_TARGET of
     None \<Rightarrow> e | Some s \<Rightarrow> e\<lparr>e_target := s\<rparr>)"

text \<open>Each program: \<open>None\<close> when nothing is submitted, else the submitted event.\<close>

definition trace_execve :: "bpf_env \<Rightarrow> trace_ctx \<Rightarrow> edr_event option" where
  "trace_execve k ctx = (if \<not> bpf_reserve k then None
     else (let e = fill_task_identity k zero_event;
               e = e\<lparr>e_type := EDR_EVENT_EXEC, e_ppid := 0\<rparr>
           in Some (read_target k (ctx_arg ctx 0) e)))"

definition trace_mprotect :: "bpf_env \<Rightarrow> trace_ctx \<Rightarrow> edr_event option" where
  "trace_mprotect k ctx = (if \<not> bpf_reserve k then None
     else (let e = fill_task_identity k zero_event
           in Some (e\<lparr>e_type := EDR_EVENT_MPROTECT, e_prot := ucast (ctx_arg ctx 2)\<rparr>)))"

definition trace_mmap :: "bpf_env \<Rightarrow> trace_ctx \<Rightarrow> edr_event option" where
  "trace_mmap k ctx = (if \<not> bpf_reserve k then None
     else (let e = fill_task_identity k zero_event
           in Some (e\<lparr>e_type := EDR_EVENT_MMAP, e_prot := ucast (ctx_arg ctx 2),
                      e_flags := ucast (ctx_arg ctx 3)\<rparr>)))"

definition trace_openat :: "bpf_env \<Rightarrow> trace_ctx \<Rightarrow> edr_event option" where
  "trace_openat k ctx = (if \<not> bpf_reserve k then None
     else (let e = fill_task_identity k zero_event;
               e = e\<lparr>e_type := EDR_EVENT_OPENAT, e_flags := ucast (ctx_arg ctx 2)\<rparr>
           in Some (read_target k (ctx_arg ctx 1) e)))"

text \<open>
  \<open>struct edr_sockaddr_in\<close> (16 bytes: family, port, address, padding) and
  \<open>struct edr_sockaddr_in6\<close> (28 bytes: family, port, flow, 16 address bytes, scope), read as the
  bytes at their offsets.
\<close>

definition load_sockaddr_in :: "u8 list \<Rightarrow> edr_event \<Rightarrow> edr_event" where
  "load_sockaddr_in bs e = e\<lparr>
     e_net_port := le16 (bs ! 2) (bs ! 3),
     e_net_addr_v4 := le32 (bs ! 4) (bs ! 5) (bs ! 6) (bs ! 7)\<rparr>"

definition load_sockaddr_in6 :: "u8 list \<Rightarrow> edr_event \<Rightarrow> edr_event" where
  "load_sockaddr_in6 bs e = e\<lparr>
     e_net_port := le16 (bs ! 2) (bs ! 3),
     e_net_addr_v6 := take 16 (drop 8 bs)\<rparr>"

definition trace_connect :: "bpf_env \<Rightarrow> trace_ctx \<Rightarrow> edr_event option" where
  "trace_connect k ctx =
     (let uaddr = ctx_arg ctx 1 in
      if uaddr = 0 then None
      else case bpf_read_user k uaddr 2 of
        None \<Rightarrow> None
      | Some fb \<Rightarrow>
          (let family = le16 (fb ! 0) (fb ! 1) in
           if family \<noteq> EDR_AF_INET \<and> family \<noteq> EDR_AF_INET6 then None
           else if \<not> bpf_reserve k then None
           else
             (let e = fill_task_identity k zero_event;
                  e = e\<lparr>e_type := EDR_EVENT_CONNECT, e_net_family := ucast family\<rparr>
              in Some (if family = EDR_AF_INET
                       then (case bpf_read_user k uaddr 16 of
                               None \<Rightarrow> e | Some bs \<Rightarrow> load_sockaddr_in bs e)
                       else (case bpf_read_user k uaddr 28 of
                               None \<Rightarrow> e | Some bs \<Rightarrow> load_sockaddr_in6 bs e)))))"

text \<open>The five tracepoints the object file carries.\<close>

datatype tracepoint = Sys_execve | Sys_mprotect | Sys_mmap | Sys_openat | Sys_connect

definition sensor_run :: "bpf_env \<Rightarrow> tracepoint \<Rightarrow> trace_ctx \<Rightarrow> edr_event option" where
  "sensor_run k tp ctx = (case tp of
     Sys_execve \<Rightarrow> trace_execve k ctx | Sys_mprotect \<Rightarrow> trace_mprotect k ctx
   | Sys_mmap \<Rightarrow> trace_mmap k ctx | Sys_openat \<Rightarrow> trace_openat k ctx
   | Sys_connect \<Rightarrow> trace_connect k ctx)"

lemmas sensor_defs = sensor_run_def trace_execve_def trace_mprotect_def trace_mmap_def
  trace_openat_def trace_connect_def read_target_def fill_task_identity_def
  load_sockaddr_in_def load_sockaddr_in6_def

lemma wf_fill_task_identity:
  "bpf_helpers_ok k \<Longrightarrow> wf_event e \<Longrightarrow> wf_event (fill_task_identity k e)"
  by (auto simp: wf_event_def fill_task_identity_def bpf_helpers_ok_def)

lemma wf_read_target:
  "bpf_helpers_ok k \<Longrightarrow> wf_event e \<Longrightarrow> wf_event (read_target k a e)"
  by (auto simp: wf_event_def read_target_def bpf_helpers_ok_def split: option.splits)

lemma wf_load_sockaddr:
  "wf_event e \<Longrightarrow> wf_event (load_sockaddr_in bs e)"
  "wf_event e \<Longrightarrow> length bs = 28 \<Longrightarrow> wf_event (load_sockaddr_in6 bs e)"
  by (auto simp: wf_event_def load_sockaddr_in_def load_sockaddr_in6_def)

lemma bpf_read_length: "bpf_helpers_ok k \<Longrightarrow> bpf_read_user k a n = Some bs \<Longrightarrow> length bs = n"
  by (auto simp: bpf_helpers_ok_def)

lemma wf_event_upd [simp]:
  "wf_event (e\<lparr>e_type := t\<rparr>) = wf_event e"
  "wf_event (e\<lparr>e_ppid := p\<rparr>) = wf_event e"
  "wf_event (e\<lparr>e_flags := f\<rparr>) = wf_event e"
  "wf_event (e\<lparr>e_prot := q\<rparr>) = wf_event e"
  "wf_event (e\<lparr>e_net_family := n\<rparr>) = wf_event e"
  by (simp_all add: wf_event_def)

lemma wf_trace_connect:
  assumes k: "bpf_helpers_ok k" and r: "trace_connect k ctx = Some e"
  shows "wf_event e"
proof -
  have b: "wf_event (fill_task_identity k zero_event)"
    using k by (simp add: wf_fill_task_identity)
  show ?thesis
    using r b k by (auto simp: trace_connect_def Let_def wf_load_sockaddr bpf_read_length
        split: if_splits option.splits)
qed

text \<open>
  C23.  Every event the sensor submits is well formed: whatever the system call and its arguments,
  \<open>comm\<close> and \<open>target\<close> are terminated strings that fit their arrays, the IPv6 address has 16 bytes,
  the type code is the one of the tracepoint, and pid, tid, uid and gid are the two halves of the
  helper results.
\<close>

theorem sensor_event_wf:
  assumes "bpf_helpers_ok k" and "sensor_run k tp ctx = Some e"
  shows "wf_event e \<and>
    e_type e = (case tp of Sys_execve \<Rightarrow> EDR_EVENT_EXEC | Sys_mprotect \<Rightarrow> EDR_EVENT_MPROTECT
                 | Sys_mmap \<Rightarrow> EDR_EVENT_MMAP | Sys_openat \<Rightarrow> EDR_EVENT_OPENAT
                 | Sys_connect \<Rightarrow> EDR_EVENT_CONNECT) \<and>
    unat (bpf_pid_tgid k) = unat (e_pid e) * 2 ^ 32 + unat (e_tid e) \<and>
    unat (bpf_uid_gid k) = unat (e_gid e) * 2 ^ 32 + unat (e_uid e)"
proof -
  have halves: "unat w = unat (ucast (drop_bit 32 w) :: u32) * 2 ^ 32 + unat (ucast w :: u32)"
    for w :: u64
  proof -
    have "unat w < 2 ^ 64" using unat_less_size [of w] by simp
    then have "unat w div 2 ^ 32 < 2 ^ 32" by (simp add: less_mult_imp_div_less)
    then show ?thesis
      by (simp add: unsigned_ucast_eq unat_drop_bit_eq drop_bit_eq_div take_bit_eq_mod unat_div)
  qed
  have base: "wf_event (fill_task_identity k zero_event)"
    using assms(1) by (simp add: wf_fill_task_identity)
  have wf: "wf_event e"
    using assms base
    by (auto simp: sensor_run_def trace_execve_def trace_mprotect_def trace_mmap_def
        trace_openat_def Let_def wf_read_target split: tracepoint.splits if_splits
        intro: wf_trace_connect)
  have ids: "e_pid e = ucast (drop_bit 32 (bpf_pid_tgid k)) \<and> e_tid e = ucast (bpf_pid_tgid k) \<and>
      e_gid e = ucast (drop_bit 32 (bpf_uid_gid k)) \<and> e_uid e = ucast (bpf_uid_gid k)"
    using assms(2) by (auto simp: sensor_defs Let_def split: tracepoint.splits if_splits option.splits)
  have ty: "e_type e = (case tp of Sys_execve \<Rightarrow> EDR_EVENT_EXEC | Sys_mprotect \<Rightarrow> EDR_EVENT_MPROTECT
                 | Sys_mmap \<Rightarrow> EDR_EVENT_MMAP | Sys_openat \<Rightarrow> EDR_EVENT_OPENAT
                 | Sys_connect \<Rightarrow> EDR_EVENT_CONNECT)"
    using assms(2) by (auto simp: sensor_defs Let_def split: tracepoint.splits if_splits option.splits)
  show ?thesis using wf ids ty halves [of "bpf_pid_tgid k"] halves [of "bpf_uid_gid k"] by metis
qed

text \<open>A kernel for the witnesses: pid 7, uid 1000, a readable IPv4 socket address, port 4444.\<close>

definition sample_bpf_env :: bpf_env where
  "sample_bpf_env = \<lparr>bpf_reserve = True, bpf_pid_tgid = 7 * 4294967296 + 9,
     bpf_uid_gid = 100 * 4294967296 + 1000, bpf_ktime_ns = 5,
     bpf_current_comm = (\<lambda>n. take (n - 1) ''curl''),
     bpf_read_user = (\<lambda>a n. Some (take n ([2, 0, 17, 92, 93, 184, 216, 34] @ replicate n 0))),
     bpf_read_user_str = (\<lambda>a n. if n = 0 then None else Some (take (n - 1) ''/usr/bin/curl''))\<rparr>"

definition sample_ctx :: trace_ctx where
  "sample_ctx = \<lparr>ctx_args = [3, 4096, 7, 34, 0, 0]\<rparr>"

lemma sample_bpf_env_ok: "bpf_helpers_ok sample_bpf_env"
proof -
  have "is_cstr (take n ''curl'')" "is_cstr (take n ''/usr/bin/curl'')" for n
    by (auto simp: is_cstr_def dest!: in_set_takeD)
  then show ?thesis by (auto simp: bpf_helpers_ok_def sample_bpf_env_def)
qed

lemma sensor_event_wf_witness:
  "\<exists>e. sensor_run sample_bpf_env Sys_connect sample_ctx = Some e \<and> wf_event e \<and>
     e_type e = EDR_EVENT_CONNECT \<and> e_pid e = 7 \<and> e_tid e = 9 \<and> e_net_port e = 23569"
proof -
  obtain e where e: "sensor_run sample_bpf_env Sys_connect sample_ctx = Some e"
    and f: "e_pid e = 7" "e_tid e = 9" "e_net_port e = 23569"
    by (simp add: sensor_defs sample_bpf_env_def sample_ctx_def ctx_arg_def Let_def le16_def
        zero_event_def drop_bit_eq_div)
  show ?thesis using sensor_event_wf [OF sample_bpf_env_ok e] e f by simp
qed

text \<open>
  The connect program reports a connection exactly when the address pointer is non-null, the
  family can be read and is \<open>AF_INET\<close> or \<open>AF_INET6\<close>, and the ring buffer has room; every other
  attempt leaves no record.
\<close>

lemma trace_connect_reports_iff:
  "trace_connect k ctx \<noteq> None \<longleftrightarrow>
     ctx_arg ctx 1 \<noteq> 0 \<and> bpf_reserve k \<and>
     (\<exists>fb. bpf_read_user k (ctx_arg ctx 1) 2 = Some fb \<and>
        le16 (fb ! 0) (fb ! 1) \<in> {EDR_AF_INET, EDR_AF_INET6})"
  by (auto simp: trace_connect_def Let_def split: option.splits)

end
