(* ===== verification/NetClass.thy ===== *)
theory NetClass
  imports Common
begin

text \<open>
  Destinations of connections (\<open>dev/host/asic_main.c\<close>): byte order, the scope of an IPv4 or IPv6
  address, and its text.  Addresses and ports arrive as the sensor stored them, in network byte
  order read by a little-endian machine.
\<close>

definition AF_INET :: u32 where [simp]: "AF_INET = 2"
definition AF_INET6 :: u32 where [simp]: "AF_INET6 = 10"
definition INET6_ADDRSTRLEN :: nat where [simp]: "INET6_ADDRSTRLEN = 46"

section \<open>Byte order\<close>

definition byte_of :: "'a::len word \<Rightarrow> nat \<Rightarrow> u8" where
  "byte_of w k = ucast (drop_bit (8 * k) w)"

definition ntohs :: "u16 \<Rightarrow> u16" where
  "ntohs w = le16 (byte_of w 1) (byte_of w 0)"

definition ntohl :: "u32 \<Rightarrow> u32" where
  "ntohl w = le32 (byte_of w 3) (byte_of w 2) (byte_of w 1) (byte_of w 0)"

lemma unat_byte_of: "unat (byte_of w k) = unat w div 256 ^ k mod 256"
proof -
  have p: "(2 :: nat) ^ (8 * k) = 256 ^ k" by (simp add: power_mult)
  have "unat (byte_of w k) = take_bit 8 (drop_bit (8 * k) (unat w))"
    by (simp only: byte_of_def unsigned_ucast_eq unat_drop_bit_eq) simp
  then show ?thesis by (simp only: drop_bit_eq_div take_bit_eq_mod p) simp
qed

lemma unat_byte_of_steps:
  "unat (byte_of w 0) = unat w mod 256"
  "unat (byte_of w (Suc 0)) = unat w div 256 mod 256"
  "unat (byte_of w 2) = unat w div 256 div 256 mod 256"
  "unat (byte_of w 3) = unat w div 256 div 256 div 256 mod 256"
  by (simp_all only: unat_byte_of power_0 div_by_1 power_Suc0_right power2_eq_square
      power3_eq_cube div_mult2_eq)

text \<open>Base-256 digits, from either end.\<close>

lemma low_digit:
  fixes x y :: nat
  assumes "x < 256"
  shows "(x + 256 * y) mod 256 = x" "(x + 256 * y) div 256 = y" "(y * 256 + x) div 256 = y"
  using assms by simp_all

lemma base256_inj:
  fixes x y x' y' :: nat
  assumes "y < 256" and "y' < 256"
  shows "x * 256 + y = x' * 256 + y' \<longleftrightarrow> x = x' \<and> y = y'"
proof
  assume e: "x * 256 + y = x' * 256 + y'"
  have x: "x = x'"
    using arg_cong [OF e, of "\<lambda>n. n div 256"] by (simp only: low_digit(3) [OF assms(1)] low_digit(3) [OF assms(2)])
  then show "x = x' \<and> y = y'" using e by simp
qed simp

lemma byte_of_le16:
  "byte_of (le16 b0 b1) 0 = b0" "byte_of (le16 b0 b1) (Suc 0) = b1"
proof -
  have b: "unat b0 < 256" "unat b1 < 256" by (rule unat_u8_less)+
  show "byte_of (le16 b0 b1) 0 = b0" "byte_of (le16 b0 b1) (Suc 0) = b1"
    using b by (auto intro!: unsigned_word_eqI [where ?'a = nat] simp: unat_byte_of_steps unat_le16)
qed

lemma byte_of_le32:
  "byte_of (le32 b0 b1 b2 b3) 0 = b0" "byte_of (le32 b0 b1 b2 b3) (Suc 0) = b1"
  "byte_of (le32 b0 b1 b2 b3) 2 = b2" "byte_of (le32 b0 b1 b2 b3) 3 = b3"
proof -
  have b: "unat b0 < 256" "unat b1 < 256" "unat b2 < 256" "unat b3 < 256" by (rule unat_u8_less)+
  show "byte_of (le32 b0 b1 b2 b3) 0 = b0"
    by (rule unsigned_word_eqI [where ?'a = nat]) (simp only: unat_byte_of_steps unat_le32_nested low_digit b mod_less)
  show "byte_of (le32 b0 b1 b2 b3) (Suc 0) = b1"
    by (rule unsigned_word_eqI [where ?'a = nat]) (simp only: unat_byte_of_steps unat_le32_nested low_digit b mod_less)
  show "byte_of (le32 b0 b1 b2 b3) 2 = b2"
    by (rule unsigned_word_eqI [where ?'a = nat]) (simp only: unat_byte_of_steps unat_le32_nested low_digit b mod_less)
  show "byte_of (le32 b0 b1 b2 b3) 3 = b3"
    by (rule unsigned_word_eqI [where ?'a = nat]) (simp only: unat_byte_of_steps unat_le32_nested low_digit b mod_less)
qed

lemma ntohs_le16: "ntohs (le16 b0 b1) = le16 b1 b0"
  by (simp add: ntohs_def byte_of_le16)

lemma ntohl_le32: "ntohl (le32 b0 b1 b2 b3) = le32 b3 b2 b1 b0"
  by (simp add: ntohl_def byte_of_le32)

text \<open>Every 32-bit value is the little-endian load of its bytes.\<close>

lemma le32_bytes: "le32 (byte_of w 0) (byte_of w 1) (byte_of w 2) (byte_of w 3) = w"
proof (intro unsigned_word_eqI [where ?'a = nat])
  have "unat w < 2 ^ 32" using unat_less_size [of w] by simp
  then have "unat w div 256 div 256 div 256 < 256" by (simp only: div_mult2_eq [symmetric]) (rule less_mult_imp_div_less, simp)
  then show "unat (le32 (byte_of w 0) (byte_of w 1) (byte_of w 2) (byte_of w 3)) = unat w"
    by (simp only: unat_le32_nested unat_byte_of_steps One_nat_def mod_less mod_mult_div_eq)
qed

section \<open>Classification\<close>

definition event_dst_port :: "edr_event \<Rightarrow> u16" where
  "event_dst_port e = ntohs (e_net_port e)"

record net_classification =
  nc_scope :: string
  nc_is_private :: bool
  nc_is_loopback :: bool

text \<open>The scope, and what is written to \<open>is_private\<close> and \<open>is_loopback\<close>.\<close>

definition classify_ipv4_addr :: "u32 \<Rightarrow> net_classification" where
  "classify_ipv4_addr addr_be =
     (let addr = ntohl addr_be;
          first = (ucast (drop_bit 24 addr) :: u8);
          second = (ucast (drop_bit 16 addr) :: u8);
          is_private = (first = 10 \<or> (first = 172 \<and> 16 \<le> second \<and> second \<le> 31) \<or>
                        (first = 192 \<and> second = 168));
          is_loopback = (first = 127);
          scope = (if first = 0 then ''unspecified''
                   else if is_loopback then ''loopback''
                   else if is_private then ''private''
                   else if first = 169 \<and> second = 254 then ''link-local''
                   else if 224 \<le> first \<and> first \<le> 239 then ''multicast''
                   else ''public'')
      in \<lparr>nc_scope = scope, nc_is_private = is_private, nc_is_loopback = is_loopback\<rparr>)"

definition ipv6_is_unspecified :: "u8 list \<Rightarrow> bool" where
  "ipv6_is_unspecified addr = list_all (\<lambda>i. addr ! i = 0) [0..<16]"

definition ipv6_is_loopback :: "u8 list \<Rightarrow> bool" where
  "ipv6_is_loopback addr \<longleftrightarrow> list_all (\<lambda>i. addr ! i = 0) [0..<15] \<and> addr ! 15 = 1"

definition v4_mapped_prefix :: "u8 list" where
  "v4_mapped_prefix = [0, 0, 0, 0, 0, 0, 0, 0, 0, 0, 0xff, 0xff]"

definition ipv6_is_v4_mapped :: "u8 list \<Rightarrow> u32 option" where
  "ipv6_is_v4_mapped addr =
     (if take 12 addr \<noteq> v4_mapped_prefix then None
      else Some (le32 (addr ! 12) (addr ! 13) (addr ! 14) (addr ! 15)))"

definition classify_net_destination :: "edr_event \<Rightarrow> net_classification" where
  "classify_net_destination e =
     (let a = e_net_addr_v6 e;
          c = \<lparr>nc_scope = '''', nc_is_private = False, nc_is_loopback = False\<rparr>
      in if e_net_family e = AF_INET then classify_ipv4_addr (e_net_addr_v4 e)
         else if e_net_family e = AF_INET6 then
           (case ipv6_is_v4_mapped a of
              Some mapped_v4 \<Rightarrow> classify_ipv4_addr mapped_v4
            | None \<Rightarrow>
                if ipv6_is_unspecified a then c\<lparr>nc_scope := ''unspecified''\<rparr>
                else if ipv6_is_loopback a then
                  c\<lparr>nc_scope := ''loopback'', nc_is_loopback := True\<rparr>
                else if and (a ! 0) 0xfe = 0xfc then
                  c\<lparr>nc_scope := ''private'', nc_is_private := True\<rparr>
                else if a ! 0 = 0xfe \<and> and (a ! 1) 0xc0 = 0x80 then
                  c\<lparr>nc_scope := ''link-local''\<rparr>
                else if a ! 0 = 0xff then c\<lparr>nc_scope := ''multicast''\<rparr>
                else c\<lparr>nc_scope := ''public''\<rparr>)
         else c)"

section \<open>Address text\<close>

text \<open>
  \<open>inet_ntop\<close> for IPv4: the four bytes in memory order.  The text of an IPv6 address is the
  C library's and a parameter here (\<open>ntop6\<close>).
\<close>

definition inet_ntop4 :: "u32 \<Rightarrow> string" where
  "inet_ntop4 a = fmt_u (unat (byte_of a 0)) @ ''.'' @ fmt_u (unat (byte_of a 1)) @ ''.'' @
     fmt_u (unat (byte_of a 2)) @ ''.'' @ fmt_u (unat (byte_of a 3))"

definition format_net_addr :: "(u8 list \<Rightarrow> string) \<Rightarrow> edr_event \<Rightarrow> nat \<Rightarrow> string" where
  "format_net_addr ntop6 e dst_size =
     (if e_net_family e = AF_INET \<and> length (inet_ntop4 (e_net_addr_v4 e)) < dst_size
      then inet_ntop4 (e_net_addr_v4 e)
      else if e_net_family e = AF_INET6 \<and> length (ntop6 (e_net_addr_v6 e)) < dst_size
      then ntop6 (e_net_addr_v6 e)
      else [])"

lemma length_inet_ntop4: "length (inet_ntop4 a) \<le> 15"
proof -
  have "length (fmt_u (unat b)) \<le> 3" for b :: u8
    using unat_u8_less [of b] by (intro length_radix_le) simp_all
  from this [of "byte_of a 0"] this [of "byte_of a 1"] this [of "byte_of a 2"] this [of "byte_of a 3"]
  show ?thesis by (simp add: inet_ntop4_def)
qed

section \<open>Properties\<close>

lemma classify_ipv4_octets:
  fixes a b c d :: u8
  shows "classify_ipv4_addr (le32 a b c d) =
    (let is_private = (a = 10 \<or> (a = 172 \<and> 16 \<le> b \<and> b \<le> 31) \<or> (a = 192 \<and> b = 168));
         is_loopback = (a = 127)
     in \<lparr>nc_scope = (if a = 0 then ''unspecified'' else if is_loopback then ''loopback''
            else if is_private then ''private'' else if a = 169 \<and> b = 254 then ''link-local''
            else if 224 \<le> a \<and> a \<le> 239 then ''multicast'' else ''public''),
        nc_is_private = is_private, nc_is_loopback = is_loopback\<rparr>)"
proof -
  have "(ucast (drop_bit 24 (ntohl (le32 a b c d))) :: u8) = byte_of (le32 d c b a) 3"
    "(ucast (drop_bit 16 (ntohl (le32 a b c d))) :: u8) = byte_of (le32 d c b a) 2"
    by (simp_all add: ntohl_le32 byte_of_def)
  then show ?thesis by (simp add: classify_ipv4_addr_def byte_of_le32)
qed

text \<open>An IPv4 address, written as its four octets, as a number.\<close>

definition ipv4_number :: "u8 \<Rightarrow> u8 \<Rightarrow> u8 \<Rightarrow> u8 \<Rightarrow> nat" where
  "ipv4_number a b c d = ((unat a * 256 + unat b) * 256 + unat c) * 256 + unat d"

text \<open>The block of an address and a prefix length.\<close>

definition in_block :: "nat \<Rightarrow> nat \<Rightarrow> nat \<Rightarrow> bool" where
  "in_block base len n \<longleftrightarrow> n div 2 ^ (32 - len) = base div 2 ^ (32 - len)"

lemma u8_eq_iff: "(x :: u8) = y \<longleftrightarrow> unat x = unat y"
  by (simp add: word_eq_iff_unsigned)

text \<open>The leading bits of an address, and when they are those of a block.\<close>

lemma ipv4_number_prefixes:
  "ipv4_number a b c d div 2 ^ 24 = unat a"
  "ipv4_number a b c d div 2 ^ 16 = unat a * 256 + unat b"
  "ipv4_number a b c d div 2 ^ 20 = unat a * 16 + unat b div 16"
  "ipv4_number a b c d div 2 ^ 28 = unat a div 16"
proof -
  have l: "unat a < 256" "unat b < 256" "unat c < 256" "unat d < 256" by (rule unat_u8_less)+
  have p: "(2 :: nat) ^ 16 = 256 * 256" "(2 :: nat) ^ 20 = 256 * 256 * 16"
    "(2 :: nat) ^ 24 = 256 * 256 * 256" "(2 :: nat) ^ 28 = 256 * 256 * 256 * 16" by simp_all
  have q: "(unat a * 256 + unat b) div 16 = unat a * 16 + unat b div 16" by arith
  show "ipv4_number a b c d div 2 ^ 24 = unat a"
    "ipv4_number a b c d div 2 ^ 16 = unat a * 256 + unat b"
    "ipv4_number a b c d div 2 ^ 20 = unat a * 16 + unat b div 16"
    "ipv4_number a b c d div 2 ^ 28 = unat a div 16"
    by (simp_all only: p div_mult2_eq ipv4_number_def low_digit l q)
qed

lemma in_block_8: "in_block (ipv4_number x y 0 0) 8 (ipv4_number a b c d) \<longleftrightarrow> unat a = unat x"
  by (simp add: in_block_def ipv4_number_prefixes [simplified])

lemma in_block_16:
  "in_block (ipv4_number x y 0 0) 16 (ipv4_number a b c d) \<longleftrightarrow> unat a = unat x \<and> unat b = unat y"
proof -
  have "unat b < 256" "unat y < 256" by (rule unat_u8_less)+
  then have "unat a * 256 + unat b = unat x * 256 + unat y \<longleftrightarrow> unat a = unat x \<and> unat b = unat y"
    by (intro base256_inj)
  then show ?thesis by (simp add: in_block_def ipv4_number_prefixes [simplified])
qed

lemma in_block_private_12:
  "in_block (ipv4_number 172 16 0 0) 12 (ipv4_number a b c d) \<longleftrightarrow> unat a = 172 \<and> 16 \<le> unat b \<and> unat b \<le> 31"
proof -
  have "unat b < 256" by (rule unat_u8_less)
  then have "unat b div 16 < 16" by (simp add: less_mult_imp_div_less)
  then have "unat a * 16 + unat b div 16 = 172 * 16 + 1 \<Longrightarrow> unat a = 172" by linarith
  then have "unat a * 16 + unat b div 16 = 172 * 16 + 1 \<longleftrightarrow> unat a = 172 \<and> unat b div 16 = 1" by auto
  moreover have "unat b div 16 = 1 \<longleftrightarrow> 16 \<le> unat b \<and> unat b \<le> 31" by arith
  moreover have "ipv4_number 172 16 0 0 div 2 ^ 20 = 172 * 16 + 1" by (simp add: ipv4_number_def)
  ultimately show ?thesis unfolding in_block_def using ipv4_number_prefixes(3) [of a b c d] by simp
qed

lemma in_block_multicast:
  "in_block (ipv4_number 224 0 0 0) 4 (ipv4_number a b c d) \<longleftrightarrow> 224 \<le> unat a \<and> unat a \<le> 239"
proof -
  have "ipv4_number 224 0 0 0 div 2 ^ 28 = 14" by (simp add: ipv4_number_def)
  moreover have "unat a div 16 = 14 \<longleftrightarrow> 224 \<le> unat a \<and> unat a \<le> 239" by arith
  ultimately show ?thesis unfolding in_block_def using ipv4_number_prefixes(4) [of a b c d] by simp
qed

text \<open>
  An IPv4-mapped IPv6 destination is classified exactly as the IPv4 destination it stands for,
  whatever the rest of the event.
\<close>

lemma v4_mapped_classified_as_v4:
  assumes "e_net_family e = AF_INET6" and "e_net_addr_v6 e = v4_mapped_prefix @ [a, b, c, d]"
    and "e_net_family e' = AF_INET" and "e_net_addr_v4 e' = le32 a b c d"
  shows "classify_net_destination e = classify_net_destination e'"
  using assms by (simp add: classify_net_destination_def ipv6_is_v4_mapped_def v4_mapped_prefix_def)

lemma classify_ipv4_flags:
  "nc_is_private (classify_ipv4_addr w) \<longleftrightarrow> nc_scope (classify_ipv4_addr w) = ''private''"
  "nc_is_loopback (classify_ipv4_addr w) \<longleftrightarrow> nc_scope (classify_ipv4_addr w) = ''loopback''"
  by (auto simp: classify_ipv4_addr_def Let_def)

text \<open>
  C27.  The scope of an IPv4 destination is the address block it is named after, each label exactly for
  its block: \<open>unspecified\<close> for 0.0.0.0/8, \<open>loopback\<close> for 127.0.0.0/8, \<open>private\<close> for 10.0.0.0/8,
  172.16.0.0/12 and 192.168.0.0/16, \<open>link-local\<close> for 169.254.0.0/16, \<open>multicast\<close> for 224.0.0.0/4,
  and \<open>public\<close> for every other address; the two flags of the record say \<open>private\<close> and
  \<open>loopback\<close>; and the same address mapped into IPv6 (\<open>::ffff:a.b.c.d\<close>) is classified alike.
\<close>

theorem classify_ipv4_blocks:
  defines "blk \<equiv> \<lambda>a b len n. in_block (ipv4_number a b 0 0) len n"
  shows "let n = ipv4_number a b c d;
      k = classify_net_destination (e\<lparr>e_net_family := AF_INET, e_net_addr_v4 := le32 a b c d\<rparr>) in
    (nc_scope k = ''unspecified'' \<longleftrightarrow> blk 0 0 8 n) \<and>
    (nc_scope k = ''loopback'' \<longleftrightarrow> blk 127 0 8 n) \<and>
    (nc_scope k = ''private'' \<longleftrightarrow> blk 10 0 8 n \<or> blk 172 16 12 n \<or> blk 192 168 16 n) \<and>
    (nc_scope k = ''link-local'' \<longleftrightarrow> blk 169 254 16 n) \<and>
    (nc_scope k = ''multicast'' \<longleftrightarrow> blk 224 0 4 n) \<and>
    (nc_scope k = ''public'' \<longleftrightarrow>
       \<not> (blk 10 0 8 n \<or> blk 172 16 12 n \<or> blk 192 168 16 n \<or> blk 127 0 8 n \<or> blk 0 0 8 n \<or>
          blk 169 254 16 n \<or> blk 224 0 4 n)) \<and>
    nc_is_private k = (nc_scope k = ''private'') \<and> nc_is_loopback k = (nc_scope k = ''loopback'') \<and>
    classify_net_destination (e\<lparr>e_net_family := AF_INET6,
      e_net_addr_v6 := replicate 10 0 @ [0xff, 0xff, a, b, c, d]\<rparr>) = k"
proof -
  let ?v4 = "e\<lparr>e_net_family := AF_INET, e_net_addr_v4 := le32 a b c d\<rparr>"
  let ?v6 = "e\<lparr>e_net_family := AF_INET6, e_net_addr_v6 := replicate 10 0 @ [0xff, 0xff, a, b, c, d]\<rparr>"
  have v4: "classify_net_destination ?v4 = classify_ipv4_addr (le32 a b c d)"
    by (simp add: classify_net_destination_def)
  have v6: "classify_net_destination ?v6 = classify_net_destination ?v4"
    by (rule v4_mapped_classified_as_v4) (simp_all add: v4_mapped_prefix_def numeral_eq_Suc)
  show ?thesis
    unfolding Let_def v6 v4 blk_def in_block_8 in_block_16 in_block_private_12 in_block_multicast
      classify_ipv4_octets
    by (auto simp: u8_eq_iff word_le_nat_alt)
qed

text \<open>
  The flags of a JSONL record never contradict its scope: a destination is marked private
  exactly when its scope is \<open>private\<close>, loopback exactly when it is \<open>loopback\<close>, and the scope is empty
  exactly for families other than IPv4 and IPv6.
\<close>

lemma classification_consistent:
  "nc_is_private (classify_net_destination e) = (nc_scope (classify_net_destination e) = ''private'') \<and>
   nc_is_loopback (classify_net_destination e) = (nc_scope (classify_net_destination e) = ''loopback'') \<and>
   (nc_scope (classify_net_destination e) = '''' \<longleftrightarrow> e_net_family e \<notin> {AF_INET, AF_INET6})"
proof -
  have n: "nc_scope (classify_ipv4_addr w) \<noteq> ''''" for w
    by (simp add: classify_ipv4_addr_def Let_def)
  show ?thesis
    by (cases "ipv6_is_v4_mapped (e_net_addr_v6 e)")
      (simp_all add: classify_net_destination_def Let_def classify_ipv4_flags n)
qed

end
