(* ===== verification/RuleTables.thy ===== *)
theory RuleTables
  imports Prelude
begin

text \<open>
  Severities and the fixed-size rule tables of \<open>dev/host/asic_main.c\<close>.  A table is a group of
  parallel arrays of \<open>MAX_RULES\<close> elements with a count of the used ones; slots past the count keep
  whatever a removal left there.  Tables come in two shapes: with a severity and a rule id per
  value (\<open>rule_table\<close>) and of bare values (\<open>value_table\<close>).  The removal loops shift the tail down
  with \<open>memmove\<close> and look at the same index again.

  The interface \<open>bounded_store\<close> states what the rest of the daemon relies on: a table is a list of
  at most \<open>MAX_RULES\<close> rows, adding appends a row unless the table is full, and removing a key
  filters the rows.  Both shapes implement it.
\<close>

definition MAX_RULES :: nat where "MAX_RULES = 128"
definition MAX_RULE_ID :: nat where "MAX_RULE_ID = 64"

section \<open>Severities\<close>

datatype edr_severity = EDR_SEV_INFO | EDR_SEV_WARN | EDR_SEV_CRITICAL

definition sev_code :: "edr_severity \<Rightarrow> nat" where
  "sev_code s = (case s of EDR_SEV_INFO \<Rightarrow> 0 | EDR_SEV_WARN \<Rightarrow> 1 | EDR_SEV_CRITICAL \<Rightarrow> 2)"

lemma sev_code_simps [simp]:
  "sev_code EDR_SEV_INFO = 0" "sev_code EDR_SEV_WARN = 1" "sev_code EDR_SEV_CRITICAL = 2"
  by (simp_all add: sev_code_def)

lemma sev_code_inj [simp]: "sev_code a = sev_code b \<longleftrightarrow> a = b"
  by (cases a; cases b) simp_all

text \<open>The code compares severities with \<open><\<close> and \<open>>=\<close> on their enum values.\<close>

instantiation edr_severity :: linorder
begin

definition less_eq_edr_severity :: "edr_severity \<Rightarrow> edr_severity \<Rightarrow> bool" where
  "less_eq_edr_severity a b \<longleftrightarrow> sev_code a \<le> sev_code b"

definition less_edr_severity :: "edr_severity \<Rightarrow> edr_severity \<Rightarrow> bool" where
  "less_edr_severity a b \<longleftrightarrow> sev_code a < sev_code b"

instance
proof
  fix a b c :: edr_severity
  show "(a < b) = (a \<le> b \<and> \<not> b \<le> a)"
    by (auto simp: less_edr_severity_def less_eq_edr_severity_def)
  show "a \<le> a" by (simp add: less_eq_edr_severity_def)
  show "a \<le> b \<Longrightarrow> b \<le> c \<Longrightarrow> a \<le> c" by (simp add: less_eq_edr_severity_def)
  show "a \<le> b \<Longrightarrow> b \<le> a \<Longrightarrow> a = b" by (simp add: less_eq_edr_severity_def)
  show "a \<le> b \<or> b \<le> a" by (auto simp: less_eq_edr_severity_def)
qed

end

lemmas severity_order = less_eq_edr_severity_def less_edr_severity_def

lemma info_least [simp]: "EDR_SEV_INFO \<le> s" "\<not> s < EDR_SEV_INFO"
  by (simp_all add: severity_order)

lemma info_less_iff: "EDR_SEV_INFO < s \<longleftrightarrow> s \<noteq> EDR_SEV_INFO"
  by (cases s) (simp_all add: severity_order)

definition parse_severity :: "string \<Rightarrow> edr_severity option" where
  "parse_severity value =
     (if value = ''info'' \<or> value = ''0'' then Some EDR_SEV_INFO
      else if value = ''warn'' \<or> value = ''warning'' \<or> value = ''1'' then Some EDR_SEV_WARN
      else if value = ''critical'' \<or> value = ''crit'' \<or> value = ''2'' then Some EDR_SEV_CRITICAL
      else None)"

section \<open>The table operations\<close>

record 'v rule_table =
  rt_values :: "'v list"
  rt_severities :: "edr_severity list"
  rt_rule_ids :: "string list"
  rt_count :: nat

record 'v value_table =
  vt_values :: "'v list"
  vt_count :: nat

text \<open>The zeroed tables of \<open>memset(&rules, 0, sizeof(rules))\<close>; \<open>z\<close> is the zero value.\<close>

definition empty_rule_table :: "'v \<Rightarrow> 'v rule_table" where
  "empty_rule_table z = \<lparr>rt_values = replicate MAX_RULES z,
     rt_severities = replicate MAX_RULES EDR_SEV_INFO,
     rt_rule_ids = replicate MAX_RULES [], rt_count = 0\<rparr>"

definition empty_value_table :: "'v \<Rightarrow> 'v value_table" where
  "empty_value_table z = \<lparr>vt_values = replicate MAX_RULES z, vt_count = 0\<rparr>"

text \<open>
  \<open>memmove(&xs[i], &xs[i + 1], tail * sizeof(xs[0]))\<close> with \<open>tail = n - i - 1\<close>: the elements up to \<open>n\<close>
  move down one place, everything from \<open>n - 1\<close> on stays.
\<close>

definition memmove_down :: "nat \<Rightarrow> nat \<Rightarrow> 'a list \<Rightarrow> 'a list" where
  "memmove_down n i xs = take i xs @ take (n - i - 1) (drop (i + 1) xs) @ drop (n - 1) xs"

definition rt_store :: "'v \<Rightarrow> edr_severity \<Rightarrow> string \<Rightarrow> 'v rule_table \<Rightarrow> 'v rule_table" where
  "rt_store v sev rule_id t = t\<lparr>
     rt_values := (rt_values t)[rt_count t := v],
     rt_severities := (rt_severities t)[rt_count t := sev],
     rt_rule_ids := (rt_rule_ids t)[rt_count t := snprintf_s MAX_RULE_ID rule_id],
     rt_count := rt_count t + 1\<rparr>"

definition rt_delete :: "nat \<Rightarrow> 'v rule_table \<Rightarrow> 'v rule_table" where
  "rt_delete i t =
     (let t = (if 0 < rt_count t - i - 1
               then t\<lparr>rt_values := memmove_down (rt_count t) i (rt_values t),
                      rt_severities := memmove_down (rt_count t) i (rt_severities t),
                      rt_rule_ids := memmove_down (rt_count t) i (rt_rule_ids t)\<rparr>
               else t)
      in t\<lparr>rt_count := rt_count t - 1\<rparr>)"

function rt_remove_loop :: "'v \<Rightarrow> nat \<Rightarrow> bool \<Rightarrow> 'v rule_table \<Rightarrow> bool \<times> 'v rule_table" where
  "rt_remove_loop v i removed t =
     (if i < rt_count t
      then if rt_values t ! i = v then rt_remove_loop v i True (rt_delete i t)
           else rt_remove_loop v (i + 1) removed t
      else (removed, t))"
  by pat_completeness auto
termination
  by (relation "measure (\<lambda>(v, i, r, t). rt_count t - i)") (auto simp: rt_delete_def Let_def)

definition vt_delete :: "nat \<Rightarrow> 'v value_table \<Rightarrow> 'v value_table" where
  "vt_delete i t =
     (let t = (if 0 < vt_count t - i - 1
               then t\<lparr>vt_values := memmove_down (vt_count t) i (vt_values t)\<rparr> else t)
      in t\<lparr>vt_count := vt_count t - 1\<rparr>)"

function vt_remove_loop :: "'v \<Rightarrow> nat \<Rightarrow> bool \<Rightarrow> 'v value_table \<Rightarrow> bool \<times> 'v value_table" where
  "vt_remove_loop v i removed t =
     (if i < vt_count t
      then if vt_values t ! i = v then vt_remove_loop v i True (vt_delete i t)
           else vt_remove_loop v (i + 1) removed t
      else (removed, t))"
  by pat_completeness auto
termination
  by (relation "measure (\<lambda>(v, i, r, t). vt_count t - i)") (auto simp: vt_delete_def Let_def)

declare rt_remove_loop.simps [simp del] vt_remove_loop.simps [simp del]

text \<open>The named operations: \<open>None\<close> is a \<open>false\<close> result, which leaves the table untouched.\<close>

definition add_rule_value ::
  "nat \<Rightarrow> string \<Rightarrow> edr_severity \<Rightarrow> string \<Rightarrow> string rule_table \<Rightarrow> string rule_table option" where
  "add_rule_value capacity value severity rule_id t =
     (if capacity \<le> rt_count t then None
      else Some (rt_store (snprintf_s 64 value) severity rule_id t))"

definition add_path_rule ::
  "nat \<Rightarrow> string \<Rightarrow> edr_severity \<Rightarrow> string \<Rightarrow> string rule_table \<Rightarrow> string rule_table option" where
  "add_path_rule capacity value severity rule_id t =
     (if capacity \<le> rt_count t then None
      else Some (rt_store (snprintf_s 256 value) severity rule_id t))"

definition add_comm_rule :: "nat \<Rightarrow> string \<Rightarrow> string value_table \<Rightarrow> string value_table option" where
  "add_comm_rule capacity value t =
     (if capacity \<le> vt_count t then None
      else Some (t\<lparr>vt_values := (vt_values t)[vt_count t := snprintf_s 16 value],
                   vt_count := vt_count t + 1\<rparr>))"

definition add_target_rule :: "nat \<Rightarrow> string \<Rightarrow> string value_table \<Rightarrow> string value_table option" where
  "add_target_rule capacity value t =
     (if capacity \<le> vt_count t then None
      else Some (t\<lparr>vt_values := (vt_values t)[vt_count t := snprintf_s 256 value],
                   vt_count := vt_count t + 1\<rparr>))"

text \<open>
  The port text accepted by \<open>add_port_rule\<close> and \<open>remove_port_rule\<close>: the whole text must be consumed by
  \<open>strtoul\<close> and the value must be in 1 to 65535 (\<open>errno\<close> is not looked at).
\<close>

definition parse_port :: "string \<Rightarrow> u16 option" where
  "parse_port value =
     (case strtoul value of (port, _, rest) \<Rightarrow>
        if rest \<noteq> [] \<or> port = 0 \<or> 65535 < port then None else Some (ucast port))"

definition add_port_rule ::
  "nat \<Rightarrow> string \<Rightarrow> edr_severity \<Rightarrow> string \<Rightarrow> u16 rule_table \<Rightarrow> u16 rule_table option" where
  "add_port_rule capacity value severity rule_id t =
     (if capacity \<le> rt_count t then None
      else case parse_port value of
        None \<Rightarrow> None | Some port \<Rightarrow> Some (rt_store port severity rule_id t))"

definition remove_rule_value :: "string \<Rightarrow> string rule_table \<Rightarrow> bool \<times> string rule_table" where
  "remove_rule_value value t = rt_remove_loop value 0 False t"

definition remove_path_rule :: "string \<Rightarrow> string rule_table \<Rightarrow> bool \<times> string rule_table" where
  "remove_path_rule value t = rt_remove_loop value 0 False t"

definition remove_comm_rule :: "string \<Rightarrow> string value_table \<Rightarrow> bool \<times> string value_table" where
  "remove_comm_rule value t = vt_remove_loop value 0 False t"

definition remove_target_rule :: "string \<Rightarrow> string value_table \<Rightarrow> bool \<times> string value_table" where
  "remove_target_rule value t = vt_remove_loop value 0 False t"

definition remove_port_rule :: "string \<Rightarrow> u16 rule_table \<Rightarrow> bool \<times> u16 rule_table" where
  "remove_port_rule value t =
     (case parse_port value of None \<Rightarrow> (False, t)
      | Some port \<Rightarrow> rt_remove_loop port 0 False t)"

definition parse_u64 :: "string \<Rightarrow> u64 option" where
  "parse_u64 value =
     (case strtoul value of (parsed, erange, rest) \<Rightarrow>
        if erange \<or> rest \<noteq> [] then None else Some parsed)"

section \<open>Rows\<close>

text \<open>The used part of a table, row by row, and the shape every operation keeps.\<close>

type_synonym 'v rule_row = "'v \<times> edr_severity \<times> string"

definition rt_rows :: "'v rule_table \<Rightarrow> 'v rule_row list" where
  "rt_rows t = take (rt_count t) (zip (rt_values t) (zip (rt_severities t) (rt_rule_ids t)))"

definition vt_rows :: "'v value_table \<Rightarrow> 'v list" where
  "vt_rows t = take (vt_count t) (vt_values t)"

definition rt_wf :: "'v rule_table \<Rightarrow> bool" where
  "rt_wf t \<longleftrightarrow> length (rt_values t) = MAX_RULES \<and> length (rt_severities t) = MAX_RULES \<and>
     length (rt_rule_ids t) = MAX_RULES \<and> rt_count t \<le> MAX_RULES"

definition vt_wf :: "'v value_table \<Rightarrow> bool" where
  "vt_wf t \<longleftrightarrow> length (vt_values t) = MAX_RULES \<and> vt_count t \<le> MAX_RULES"

lemma rt_wf_empty [simp]: "rt_wf (empty_rule_table z)" "rt_rows (empty_rule_table z) = []"
  by (simp_all add: rt_wf_def empty_rule_table_def rt_rows_def)

lemma vt_wf_empty [simp]: "vt_wf (empty_value_table z)" "vt_rows (empty_value_table z) = []"
  by (simp_all add: vt_wf_def empty_value_table_def vt_rows_def)

lemma length_rt_rows [table_simps]: "rt_wf t \<Longrightarrow> length (rt_rows t) = rt_count t"
  by (simp add: rt_wf_def rt_rows_def)

lemma length_vt_rows [table_simps]: "vt_wf t \<Longrightarrow> length (vt_rows t) = vt_count t"
  by (simp add: vt_wf_def vt_rows_def)

lemma nth_rt_rows [table_simps]:
  "rt_wf t \<Longrightarrow> i < rt_count t \<Longrightarrow>
     rt_rows t ! i = (rt_values t ! i, rt_severities t ! i, rt_rule_ids t ! i)"
  by (simp add: rt_wf_def rt_rows_def)

lemma nth_vt_rows [table_simps]: "vt_wf t \<Longrightarrow> i < vt_count t \<Longrightarrow> vt_rows t ! i = vt_values t ! i"
  by (simp add: vt_wf_def vt_rows_def)

lemma rt_store_wf: "rt_wf t \<Longrightarrow> rt_count t < MAX_RULES \<Longrightarrow> rt_wf (rt_store v s i t)"
  by (simp add: rt_wf_def rt_store_def)

lemma rt_store_rows:
  assumes "rt_wf t" and "rt_count t < MAX_RULES"
  shows "rt_rows (rt_store v s i t) = rt_rows t @ [(v, s, snprintf_s MAX_RULE_ID i)]"
  using assms
  by (simp add: rt_rows_def rt_wf_def rt_store_def take_Suc_conv_app_nth take_zip)

subsection \<open>Removal\<close>

lemma length_memmove_down:
  "i < n \<Longrightarrow> n \<le> length xs \<Longrightarrow> length (memmove_down n i xs) = length xs"
  by (simp add: memmove_down_def)

lemma take_memmove_down:
  "i < n \<Longrightarrow> n \<le> length xs \<Longrightarrow>
     take (n - 1) (memmove_down n i xs) = take i xs @ drop (i + 1) (take n xs)"
  by (simp add: memmove_down_def drop_take)

lemma memmove_down_last: "n = Suc i \<Longrightarrow> memmove_down n i xs = xs"
  by (simp add: memmove_down_def)

lemma memmove_down_zip:
  assumes "length xs = length ys"
  shows "zip (memmove_down n i xs) (memmove_down n i ys) = memmove_down n i (zip xs ys)"
  using assms by (simp add: memmove_down_def take_zip drop_zip zip_append)

lemma rt_delete_eq:
  assumes "i < rt_count t"
  shows "rt_delete i t = t\<lparr>rt_values := memmove_down (rt_count t) i (rt_values t),
           rt_severities := memmove_down (rt_count t) i (rt_severities t),
           rt_rule_ids := memmove_down (rt_count t) i (rt_rule_ids t),
           rt_count := rt_count t - 1\<rparr>"
  using assms by (cases "rt_count t = Suc i") (auto simp: rt_delete_def Let_def memmove_down_last)

lemma rt_delete_wf: "rt_wf t \<Longrightarrow> i < rt_count t \<Longrightarrow> rt_wf (rt_delete i t)"
  by (auto simp: rt_delete_eq rt_wf_def length_memmove_down)

lemma rt_delete_rows:
  assumes "rt_wf t" and "i < rt_count t"
  shows "rt_rows (rt_delete i t) = take i (rt_rows t) @ drop (i + 1) (rt_rows t)"
  using assms
  by (simp add: rt_delete_eq rt_rows_def rt_wf_def memmove_down_zip length_memmove_down
      take_memmove_down [simplified] min_def)

lemma vt_delete_eq:
  assumes "i < vt_count t"
  shows "vt_delete i t = t\<lparr>vt_values := memmove_down (vt_count t) i (vt_values t),
           vt_count := vt_count t - 1\<rparr>"
  using assms by (cases "vt_count t = Suc i") (auto simp: vt_delete_def Let_def memmove_down_last)

lemma vt_delete_wf: "vt_wf t \<Longrightarrow> i < vt_count t \<Longrightarrow> vt_wf (vt_delete i t)"
  by (auto simp: vt_delete_eq vt_wf_def length_memmove_down)

lemma vt_delete_rows:
  assumes "vt_wf t" and "i < vt_count t"
  shows "vt_rows (vt_delete i t) = take i (vt_rows t) @ drop (i + 1) (vt_rows t)"
  using assms
  by (simp add: vt_delete_eq vt_rows_def vt_wf_def take_memmove_down [simplified] min_def)

text \<open>
  The loop at index \<open>i\<close>: rows before \<open>i\<close> are already free of the key, the rest is filtered.
\<close>

lemma filter_cut:
  assumes "i < length xs" and "\<forall>r \<in> set (take i xs). P r"
  shows "filter P (take i xs @ drop (i + 1) xs) = filter P xs \<or> P (xs ! i)"
  using assms by (subst (3) id_take_nth_drop [OF assms(1)]) auto

lemma take_Suc_all:
  "i < length xs \<Longrightarrow> P (xs ! i) \<Longrightarrow> \<forall>r \<in> set (take i xs). P r \<Longrightarrow> \<forall>r \<in> set (take (i + 1) xs). P r"
  by (simp add: take_Suc_conv_app_nth)

text \<open>
  The removal loop over any table whose cell \<open>i\<close> can be cut out by shifting the tail: proved once
  for both shapes.
\<close>

locale shift_table =
  fixes inv :: "'t \<Rightarrow> bool"
    and rows :: "'t \<Rightarrow> 'r list"
    and count :: "'t \<Rightarrow> nat"
    and cell :: "'t \<Rightarrow> nat \<Rightarrow> 'v"
    and key :: "'r \<Rightarrow> 'v"
    and del :: "nat \<Rightarrow> 't \<Rightarrow> 't"
    and loop :: "'v \<Rightarrow> nat \<Rightarrow> bool \<Rightarrow> 't \<Rightarrow> bool \<times> 't"
  assumes rows_length: "inv t \<Longrightarrow> length (rows t) = count t"
    and cell_row: "inv t \<Longrightarrow> i < count t \<Longrightarrow> key (rows t ! i) = cell t i"
    and inv_del: "inv t \<Longrightarrow> i < count t \<Longrightarrow> inv (del i t)"
    and rows_del: "inv t \<Longrightarrow> i < count t \<Longrightarrow> rows (del i t) = take i (rows t) @ drop (i + 1) (rows t)"
    and loop_eq: "loop v i b t =
      (if i < count t then if cell t i = v then loop v i True (del i t) else loop v (i + 1) b t
       else (b, t))"
begin

lemma count_del:
  assumes "inv t" and "i < count t"
  shows "count (del i t) = count t - 1"
proof -
  have "count (del i t) = length (take i (rows t) @ drop (i + 1) (rows t))"
    by (simp only: rows_length [OF inv_del [OF assms], symmetric] rows_del [OF assms])
  then show ?thesis using assms(2) rows_length [OF assms(1)] by simp
qed

lemma loop_rows:
  assumes "inv t" and "i \<le> count t" and "\<forall>r \<in> set (take i (rows t)). key r \<noteq> v"
  shows "inv (snd (loop v i b t)) \<and>
    rows (snd (loop v i b t)) = filter (\<lambda>r. key r \<noteq> v) (rows t) \<and>
    (fst (loop v i b t) \<longleftrightarrow> b \<or> (\<exists>r \<in> set (rows t). key r = v))"
  using assms
proof (induction "count t - i" arbitrary: i b t rule: less_induct)
  case less
  consider (hit) "i < count t" "cell t i = v" | (skip) "i < count t" "cell t i \<noteq> v"
    | (stop) "i = count t"
    using less.prems(2) by linarith
  then show ?case
  proof cases
    case hit
    have row: "i < length (rows t)" "key (rows t ! i) = v"
      using hit less.prems(1) by (simp_all add: rows_length cell_row)
    have d: "inv (del i t)" "rows (del i t) = take i (rows t) @ drop (i + 1) (rows t)"
      "count (del i t) = count t - 1"
      using hit less.prems(1) by (simp_all add: inv_del rows_del count_del)
    have p: "\<forall>r \<in> set (take i (rows (del i t))). key r \<noteq> v"
      using less.prems(3) row d(2) by simp
    have f: "filter (\<lambda>r. key r \<noteq> v) (rows (del i t)) = filter (\<lambda>r. key r \<noteq> v) (rows t)"
      using filter_cut [OF row(1) less.prems(3)] row(2) d(2) by simp
    have e: "\<exists>r \<in> set (rows t). key r = v" using row nth_mem by blast
    have "count (del i t) - i < count t - i" "i \<le> count (del i t)" using hit d(3) by auto
    from less.hyps [OF this(1) d(1) this(2) p, of True] show ?thesis
      using hit f e by (subst (1 2 3) loop_eq) simp
  next
    case skip
    have row: "i < length (rows t)" "key (rows t ! i) \<noteq> v"
      using skip less.prems(1) by (simp_all add: rows_length cell_row)
    have p: "\<forall>r \<in> set (take (i + 1) (rows t)). key r \<noteq> v"
      by (rule take_Suc_all [OF row(1), where P = "\<lambda>r. key r \<noteq> v"]) (use row less.prems(3) in auto)
    have "count t - (i + 1) < count t - i" "i + 1 \<le> count t" using skip by auto
    from less.hyps [OF this(1) less.prems(1) this(2) p, of b] show ?thesis
      using skip by (subst (1 2 3) loop_eq) simp
  next
    case stop
    then have "take i (rows t) = rows t" using less.prems(1) by (simp add: rows_length)
    then show ?thesis
      using less.prems stop by (subst (1 2 3) loop_eq) (auto simp: filter_id_conv)
  qed
qed

lemma remove_all:
  assumes "inv t"
  shows "inv (snd (loop v 0 False t)) \<and>
    rows (snd (loop v 0 False t)) = filter (\<lambda>r. key r \<noteq> v) (rows t) \<and>
    (fst (loop v 0 False t) \<longleftrightarrow> (\<exists>r \<in> set (rows t). key r = v))"
  using loop_rows [OF assms, of 0 v False] by simp

end

interpretation rt_shift:
  shift_table rt_wf rt_rows rt_count "\<lambda>t i. rt_values t ! i" fst rt_delete rt_remove_loop
proof unfold_locales
  show "rt_remove_loop v i b t =
      (if i < rt_count t then if rt_values t ! i = v then rt_remove_loop v i True (rt_delete i t)
       else rt_remove_loop v (i + 1) b t else (b, t))" for v i b and t :: "'a rule_table"
    by (rule rt_remove_loop.simps)
qed (simp_all add: table_simps rt_delete_wf rt_delete_rows)

interpretation vt_shift:
  shift_table vt_wf vt_rows vt_count "\<lambda>t i. vt_values t ! i" "\<lambda>r. r" vt_delete vt_remove_loop
proof unfold_locales
  show "vt_remove_loop v i b t =
      (if i < vt_count t then if vt_values t ! i = v then vt_remove_loop v i True (vt_delete i t)
       else vt_remove_loop v (i + 1) b t else (b, t))" for v i b and t :: "'a value_table"
    by (rule vt_remove_loop.simps)
qed (simp_all add: table_simps vt_delete_wf vt_delete_rows)

section \<open>What the daemon relies on\<close>

text \<open>
  \<open>add\<close> with an argument that is not accepted, or on a full table, is refused; \<open>remove\<close> with a
  key drops every row the key matches and says whether there was one.
\<close>

locale bounded_store =
  fixes cap :: nat
    and inv :: "'t \<Rightarrow> bool"
    and rows :: "'t \<Rightarrow> 'r list"
    and accepts :: "'a \<Rightarrow> bool"
    and row_of :: "'a \<Rightarrow> 'r"
    and add :: "'a \<Rightarrow> 't \<Rightarrow> 't option"
    and matches :: "'k \<Rightarrow> 'r \<Rightarrow> bool"
    and remove :: "'k \<Rightarrow> 't \<Rightarrow> bool \<times> 't"
  assumes bounded: "inv t \<Longrightarrow> length (rows t) \<le> cap"
    and add_None: "inv t \<Longrightarrow> add a t = None \<longleftrightarrow> cap \<le> length (rows t) \<or> \<not> accepts a"
    and add_Some: "inv t \<Longrightarrow> add a t = Some t' \<Longrightarrow> inv t' \<and> rows t' = rows t @ [row_of a]"
    and inv_remove: "inv t \<Longrightarrow> inv (snd (remove k t))"
    and rows_remove: "inv t \<Longrightarrow> rows (snd (remove k t)) = filter (\<lambda>r. \<not> matches k r) (rows t)"
    and remove_found: "inv t \<Longrightarrow> fst (remove k t) \<longleftrightarrow> (\<exists>r \<in> set (rows t). matches k r)"
begin

lemma add_obtain:
  assumes "inv t" and "accepts a" and "length (rows t) < cap"
  obtains t' where "add a t = Some t'" "inv t'" "rows t' = rows t @ [row_of a]"
proof -
  have "add a t \<noteq> None" using assms add_None [OF assms(1)] by simp
  then obtain t' where "add a t = Some t'" by blast
  then show ?thesis using that add_Some [OF assms(1)] by blast
qed

text \<open>Adding a rule and disabling its value gives the table the disabling alone would give.\<close>

lemma add_then_remove:
  assumes "inv t" and "add a t = Some t'" and "matches k (row_of a)"
  shows "rows (snd (remove k t')) = rows (snd (remove k t)) \<and> fst (remove k t')"
  using assms add_Some [OF assms(1,2)] by (auto simp: rows_remove remove_found)

lemma remove_twice:
  assumes "inv t"
  shows "rows (snd (remove k (snd (remove k t)))) = rows (snd (remove k t)) \<and>
    \<not> fst (remove k (snd (remove k t)))"
  using assms by (auto simp: rows_remove remove_found inv_remove filter_id_conv)

lemma rows_remove_length:
  "inv t \<Longrightarrow> r \<in> set (rows t) \<Longrightarrow> matches k r \<Longrightarrow>
     length (rows (snd (remove k t))) < length (rows t)"
  by (simp only: rows_remove) (rule length_filter_less, auto)

lemma remove_makes_room: "inv t \<Longrightarrow> fst (remove k t) \<Longrightarrow> length (rows (snd (remove k t))) < cap"
  by (meson bounded less_le_trans remove_found rows_remove_length)

text \<open>Adding a batch of accepted rows, ignoring the results, as the built-in defaults are loaded.\<close>

lemma add_batch:
  assumes "inv t" and "\<forall>a \<in> set as. accepts a" and "length (rows t) + length as \<le> cap"
  shows "inv (fold (\<lambda>a. attempt (add a)) as t) \<and>
    rows (fold (\<lambda>a. attempt (add a)) as t) = rows t @ map row_of as"
  using assms
proof (induction as arbitrary: t)
  case (Cons a as)
  have "accepts a" "length (rows t) < cap" using Cons.prems by auto
  then obtain t' where t': "add a t = Some t'" "inv t'" "rows t' = rows t @ [row_of a]"
    using add_obtain [OF Cons.prems(1)] by metis
  then have "length (rows t') + length as \<le> cap" using Cons.prems(3) by simp
  with Cons.IH [OF t'(2) _ this] Cons.prems(2) t' show ?case by (simp add: attempt_def)
qed simp

end

definition add_rule :: "(string \<times> edr_severity \<times> string) \<Rightarrow> string rule_table \<Rightarrow> string rule_table option" where
  "add_rule a = add_rule_value MAX_RULES (fst a) (fst (snd a)) (snd (snd a))"

definition add_path :: "(string \<times> edr_severity \<times> string) \<Rightarrow> string rule_table \<Rightarrow> string rule_table option" where
  "add_path a = add_path_rule MAX_RULES (fst a) (fst (snd a)) (snd (snd a))"

definition add_port :: "(string \<times> edr_severity \<times> string) \<Rightarrow> u16 rule_table \<Rightarrow> u16 rule_table option" where
  "add_port a = add_port_rule MAX_RULES (fst a) (fst (snd a)) (snd (snd a))"

lemma rt_count_le: "rt_wf t \<Longrightarrow> rt_count t \<le> MAX_RULES"
  by (simp add: rt_wf_def)

lemma vt_count_le: "vt_wf t \<Longrightarrow> vt_count t \<le> MAX_RULES"
  by (simp add: vt_wf_def)

lemma vt_push_rows:
  assumes "vt_wf t" and "vt_count t < MAX_RULES"
  shows "vt_wf (t\<lparr>vt_values := (vt_values t)[vt_count t := v], vt_count := vt_count t + 1\<rparr>)"
    and "vt_rows (t\<lparr>vt_values := (vt_values t)[vt_count t := v], vt_count := vt_count t + 1\<rparr>)
       = vt_rows t @ [v]"
  using assms by (simp_all add: vt_wf_def vt_rows_def take_Suc_conv_app_nth)

lemmas table_law_simps = rt_store_wf rt_store_rows length_rt_rows length_vt_rows rt_count_le
  vt_count_le vt_push_rows [simplified] rt_shift.remove_all vt_shift.remove_all

interpretation exec_store:
  bounded_store MAX_RULES rt_wf rt_rows "\<lambda>_. True"
    "\<lambda>(v, s, i). (snprintf_s 64 v, s, snprintf_s MAX_RULE_ID i)" add_rule
    "\<lambda>k r. fst r = k" remove_rule_value
  by unfold_locales
    (auto simp: table_law_simps add_rule_def add_rule_value_def remove_rule_value_def
      split: if_splits)

interpretation path_store:
  bounded_store MAX_RULES rt_wf rt_rows "\<lambda>_. True"
    "\<lambda>(v, s, i). (snprintf_s 256 v, s, snprintf_s MAX_RULE_ID i)" add_path
    "\<lambda>k r. fst r = k" remove_path_rule
  by unfold_locales
    (auto simp: table_law_simps add_path_def add_path_rule_def remove_path_rule_def
      split: if_splits)

interpretation port_store:
  bounded_store MAX_RULES rt_wf rt_rows "\<lambda>(v, s, i). parse_port v \<noteq> None"
    "\<lambda>(v, s, i). (the (parse_port v), s, snprintf_s MAX_RULE_ID i)" add_port
    "\<lambda>k r. Some (fst r) = parse_port k" remove_port_rule
  by unfold_locales
    (auto simp: table_law_simps add_port_def add_port_rule_def remove_port_rule_def
      split: if_splits option.splits)

interpretation comm_store:
  bounded_store MAX_RULES vt_wf vt_rows "\<lambda>_. True" "snprintf_s 16" "add_comm_rule MAX_RULES"
    "\<lambda>k r. r = k" remove_comm_rule
  by unfold_locales
    (auto simp: table_law_simps add_comm_rule_def remove_comm_rule_def split: if_splits)

interpretation target_store:
  bounded_store MAX_RULES vt_wf vt_rows "\<lambda>_. True" "snprintf_s 256" "add_target_rule MAX_RULES"
    "\<lambda>k r. r = k" remove_target_rule
  by unfold_locales
    (auto simp: table_law_simps add_target_rule_def remove_target_rule_def split: if_splits)

section \<open>Properties\<close>

text \<open>
  C22.  Disabling a rule value: the \<open>memmove\<close> loop, which shifts three parallel arrays and re-examines
  the same index, removes exactly the rows with that value, keeps the order of the others, keeps
  the parallel arrays in step and reports whether there was such a row.
\<close>

theorem remove_rule_value_filters:
  assumes "rt_wf t"
  shows "rt_wf (snd (remove_rule_value v t)) \<and>
    rt_rows (snd (remove_rule_value v t)) = filter (\<lambda>row. fst row \<noteq> v) (rt_rows t) \<and>
    (fst (remove_rule_value v t) \<longleftrightarrow> (\<exists>row \<in> set (rt_rows t). fst row = v))"
  using exec_store.inv_remove exec_store.rows_remove exec_store.remove_found assms by simp

definition sample_table :: "string rule_table" where
  "sample_table = attempt (add_rule (''sh'', EDR_SEV_CRITICAL, ''exec.b''))
     (attempt (add_rule (''bash'', EDR_SEV_WARN, ''exec.a'')) (empty_rule_table []))"

lemma sample_table_rows:
  "rt_wf sample_table \<and>
   rt_rows sample_table = [(''bash'', EDR_SEV_WARN, ''exec.a''), (''sh'', EDR_SEV_CRITICAL, ''exec.b'')]"
proof -
  have "sample_table = fold (\<lambda>a. attempt (add_rule a))
      [(''bash'', EDR_SEV_WARN, ''exec.a''), (''sh'', EDR_SEV_CRITICAL, ''exec.b'')] (empty_rule_table [])"
    by (simp add: sample_table_def)
  then show ?thesis
    using exec_store.add_batch [of "empty_rule_table []"
        "[(''bash'', EDR_SEV_WARN, ''exec.a''), (''sh'', EDR_SEV_CRITICAL, ''exec.b'')]"]
    by (simp add: snprintf_s_def MAX_RULE_ID_def MAX_RULES_def)
qed

lemma remove_rule_value_filters_witness:
  "rt_rows (snd (remove_rule_value ''bash'' sample_table)) = [(''sh'', EDR_SEV_CRITICAL, ''exec.b'')] \<and>
   fst (remove_rule_value ''bash'' sample_table)"
  using remove_rule_value_filters [of sample_table "''bash''"] sample_table_rows by simp

text \<open>
  Adding a path rule appends one row at the end, the value cut to 255 characters and the rule id
  to 63; it is refused exactly when the table already holds \<open>MAX_RULES\<close> rows; and disabling the
  value afterwards leaves the rows that disabling it before would have left.
\<close>

lemma add_path_rule_appends:
  assumes "rt_wf t"
  shows "(add_path_rule MAX_RULES v s i t = None \<longleftrightarrow> length (rt_rows t) = MAX_RULES) \<and>
    (\<forall>t'. add_path_rule MAX_RULES v s i t = Some t' \<longrightarrow>
       rt_wf t' \<and> rt_rows t' = rt_rows t @ [(snprintf_s 256 v, s, snprintf_s MAX_RULE_ID i)] \<and>
       rt_rows (snd (remove_path_rule (snprintf_s 256 v) t')) =
         rt_rows (snd (remove_path_rule (snprintf_s 256 v) t)))"
proof -
  have n: "add_path_rule MAX_RULES v s i = add_path (v, s, i)" by (simp add: add_path_def fun_eq_iff)
  have none: "add_path (v, s, i) t = None \<longleftrightarrow> length (rt_rows t) = MAX_RULES"
    using path_store.add_None [OF assms] path_store.bounded [OF assms] by auto
  have some: "rt_wf t' \<and> rt_rows t' = rt_rows t @ [(snprintf_s 256 v, s, snprintf_s MAX_RULE_ID i)] \<and>
      rt_rows (snd (remove_path_rule (snprintf_s 256 v) t')) =
        rt_rows (snd (remove_path_rule (snprintf_s 256 v) t))"
    if t': "add_path (v, s, i) t = Some t'" for t'
    using path_store.add_Some [OF assms t']
      path_store.add_then_remove [OF assms t', of "snprintf_s 256 v"] by simp
  show ?thesis unfolding n using none some by blast
qed

lemma parse_port_fmt_u:
  "parse_port (fmt_u n) = (if 0 < n \<and> n < 65536 then Some (of_nat n) else None)"
proof (cases "n < 2 ^ 64")
  case True
  then have "unat (of_nat n :: u64) = n" by (simp add: unsigned_of_nat take_bit_nat_eq_self)
  then have "(of_nat n :: u64) = 0 \<longleftrightarrow> n = 0" "65535 < (of_nat n :: u64) \<longleftrightarrow> 65535 < n"
    by (simp_all add: word_less_nat_alt unat_eq_zero [symmetric])
  moreover have "ucast (of_nat n :: u64) = (of_nat n :: u16)"
    by (rule unsigned_word_eqI [where ?'a = nat])
      (simp add: unsigned_ucast_eq unsigned_of_nat take_bit_take_bit min_def)
  ultimately show ?thesis using True by (auto simp: parse_port_def strtoul_fmt_u)
next
  case False
  moreover have "(65535 :: u64) < - 1" by (simp add: word_less_nat_alt unsigned_minus_1_eq_mask mask_eq_exp_minus_1)
  ultimately show ?thesis by (simp add: parse_port_def strtoul_fmt_u)
qed

text \<open>
  C35.  Port texts: a number written in decimal is accepted exactly when it lies between 1 and 65535,
  however large it is, and is then read back as itself; no other text denotes port 0 either; and the
  removal of a text that is not a port changes nothing.
\<close>

theorem parse_port_roundtrip:
  "map_option unat (parse_port (fmt_u n)) = (if 1 \<le> n \<and> n \<le> 65535 then Some n else None) \<and>
   parse_port text \<noteq> Some 0 \<and>
   (parse_port text = None \<longrightarrow> remove_port_rule text t = (False, t))"
proof (intro conjI)
  show "map_option unat (parse_port (fmt_u n)) = (if 1 \<le> n \<and> n \<le> 65535 then Some n else None)"
    by (auto simp: parse_port_fmt_u unsigned_of_nat take_bit_nat_eq_self)
  show "parse_port text \<noteq> Some 0"
  proof
    assume "parse_port text = Some 0"
    then obtain p :: u64 where p: "p \<noteq> 0" "p \<le> 65535" "(ucast p :: u16) = 0"
      by (auto simp: parse_port_def split: prod.splits if_splits)
    have "unat p < 2 ^ 16" using p(2) by (simp add: word_le_nat_alt)
    then have "unat (ucast p :: u16) = unat p"
      by (simp add: unsigned_ucast_eq take_bit_nat_eq_self)
    then show False using p by (simp add: unat_eq_zero)
  qed
  show "parse_port text = None \<longrightarrow> remove_port_rule text t = (False, t)"
    by (simp add: remove_port_rule_def)
qed

lemma parse_port_roundtrip_witness:
  "map_option unat (parse_port (fmt_u 4444)) = Some 4444 \<and> parse_port (fmt_u 70000) = None \<and>
   remove_port_rule (fmt_u 70000) (empty_rule_table 0) = (False, empty_rule_table 0)"
  using parse_port_roundtrip [of 4444 "[]" "empty_rule_table 0"]
    parse_port_roundtrip [of 70000 "fmt_u 70000" "empty_rule_table 0"] by simp

end
