(* ===== verification/Policy.thy ===== *)
theory Policy
  imports RuleTables
begin

text \<open>
  The policy of the daemon: \<open>struct edr_rules\<close>, the profiles, the built-in defaults, and the rule id
  controls (disabling and severity overrides) of \<open>dev/host/asic_main.c\<close>.  The global \<open>rules\<close> is
  an argument, and a result where the code writes it.
\<close>

section \<open>Constants and data\<close>

definition DEFAULT_DEDUP_WINDOW_SECONDS :: u64 where "DEFAULT_DEDUP_WINDOW_SECONDS = 5"
definition DEFAULT_USER_IDLE_THRESHOLD_SECONDS :: u32 where
  "DEFAULT_USER_IDLE_THRESHOLD_SECONDS = 300"
definition NS_PER_SECOND :: u64 where "NS_PER_SECOND = 1000 * 1000 * 1000"

definition FLOW_RULE_SHELL_DOWNLOADER_PUBLIC_NET :: string where
  "FLOW_RULE_SHELL_DOWNLOADER_PUBLIC_NET = ''flow.shell_downloader_public_net''"
definition FLOW_RULE_NO_TTY_PUBLIC_TRANSFER_TOOL :: string where
  "FLOW_RULE_NO_TTY_PUBLIC_TRANSFER_TOOL = ''flow.no_tty_public_transfer_tool''"
definition FLOW_RULE_SENSITIVE_READ_THEN_PUBLIC_NET :: string where
  "FLOW_RULE_SENSITIVE_READ_THEN_PUBLIC_NET = ''flow.sensitive_read_then_public_net''"
definition FLOW_RULE_IDLE_PUBLIC_TRANSFER_TOOL :: string where
  "FLOW_RULE_IDLE_PUBLIC_TRANSFER_TOOL = ''flow.idle_public_transfer_tool''"

lemmas flow_rule_names =
  FLOW_RULE_SHELL_DOWNLOADER_PUBLIC_NET_def FLOW_RULE_NO_TTY_PUBLIC_TRANSFER_TOOL_def
  FLOW_RULE_SENSITIVE_READ_THEN_PUBLIC_NET_def FLOW_RULE_IDLE_PUBLIC_TRANSFER_TOOL_def

datatype edr_profile = EDR_PROFILE_BASELINE | EDR_PROFILE_SERVER
  | EDR_PROFILE_DEVELOPER_WORKSTATION | EDR_PROFILE_HIGH_SIGNAL

record edr_rules =
  ru_profile :: edr_profile
  ru_profile_name :: string
  ru_suspicious_exec_exact :: "string rule_table"
  ru_suspicious_exec_prefix :: "string rule_table"
  ru_sensitive_read :: "string rule_table"
  ru_sensitive_write :: "string rule_table"
  ru_jit_allow_comm :: "string value_table"
  ru_suspicious_ports :: "u16 rule_table"
  ru_flow_allow_transfer :: "string value_table"
  ru_disabled_rule_ids :: "string value_table"
  ru_severity_override_rule_ids :: "string list"
  ru_severity_override_values :: "edr_severity list"
  ru_severity_override_count :: nat
  ru_dedup_window_ns :: u64
  ru_min_severity :: edr_severity
  ru_anon_exec_mmap_severity :: edr_severity
  ru_user_idle_threshold_seconds :: u32

definition profile_name :: "edr_profile \<Rightarrow> string" where
  "profile_name p = (case p of
     EDR_PROFILE_BASELINE \<Rightarrow> ''baseline''
   | EDR_PROFILE_SERVER \<Rightarrow> ''server''
   | EDR_PROFILE_DEVELOPER_WORKSTATION \<Rightarrow> ''developer-workstation''
   | EDR_PROFILE_HIGH_SIGNAL \<Rightarrow> ''high-signal'')"

definition parse_profile :: "string \<Rightarrow> edr_profile option" where
  "parse_profile value =
     (if value = ''baseline'' then Some EDR_PROFILE_BASELINE
      else if value = ''server'' then Some EDR_PROFILE_SERVER
      else if value = ''developer-workstation'' then Some EDR_PROFILE_DEVELOPER_WORKSTATION
      else if value = ''high-signal'' then Some EDR_PROFILE_HIGH_SIGNAL
      else None)"

text \<open>\<open>memset(&rules, 0, sizeof(rules))\<close>; the null \<open>profile_name\<close> is set right after.\<close>

definition zero_rules :: edr_rules where
  "zero_rules = \<lparr>ru_profile = EDR_PROFILE_BASELINE, ru_profile_name = [],
     ru_suspicious_exec_exact = empty_rule_table [], ru_suspicious_exec_prefix = empty_rule_table [],
     ru_sensitive_read = empty_rule_table [], ru_sensitive_write = empty_rule_table [],
     ru_jit_allow_comm = empty_value_table [], ru_suspicious_ports = empty_rule_table 0,
     ru_flow_allow_transfer = empty_value_table [], ru_disabled_rule_ids = empty_value_table [],
     ru_severity_override_rule_ids = replicate MAX_RULES [],
     ru_severity_override_values = replicate MAX_RULES EDR_SEV_INFO,
     ru_severity_override_count = 0, ru_dedup_window_ns = 0, ru_min_severity = EDR_SEV_INFO,
     ru_anon_exec_mmap_severity = EDR_SEV_INFO, ru_user_idle_threshold_seconds = 0\<rparr>"

section \<open>Rule ids and their controls\<close>

text \<open>\<open>valid_rule_id\<close>, for a non-null pointer.\<close>

definition rule_id_char :: "char \<Rightarrow> bool" where
  "rule_id_char c \<longleftrightarrow>
     (let n = (of_char c :: nat) in
      (97 \<le> n \<and> n \<le> 122) \<or> (65 \<le> n \<and> n \<le> 90) \<or> (48 \<le> n \<and> n \<le> 57) \<or>
      c = CHR ''.'' \<or> c = CHR ''_'' \<or> c = CHR ''-'')"

definition valid_rule_id :: "string \<Rightarrow> bool" where
  "valid_rule_id rule_id \<longleftrightarrow>
     rule_id \<noteq> [] \<and> length rule_id < MAX_RULE_ID \<and> list_all rule_id_char rule_id"

definition add_disabled_rule_id :: "string \<Rightarrow> edr_rules \<Rightarrow> edr_rules option" where
  "add_disabled_rule_id rule_id r =
     (let t = ru_disabled_rule_ids r in
      if list_ex (\<lambda>v. v = rule_id) (take (vt_count t) (vt_values t)) then Some r
      else if MAX_RULES \<le> vt_count t then None
      else Some (r\<lparr>ru_disabled_rule_ids :=
             t\<lparr>vt_values := (vt_values t)[vt_count t := snprintf_s MAX_RULE_ID rule_id],
               vt_count := vt_count t + 1\<rparr>\<rparr>))"

definition add_rule_severity_override ::
  "string \<Rightarrow> edr_severity \<Rightarrow> edr_rules \<Rightarrow> edr_rules option" where
  "add_rule_severity_override rule_id severity r =
     (let n = ru_severity_override_count r in
      case first_index (\<lambda>v. v = rule_id) (take n (ru_severity_override_rule_ids r)) of
        Some i \<Rightarrow>
          Some (r\<lparr>ru_severity_override_values := (ru_severity_override_values r)[i := severity]\<rparr>)
      | None \<Rightarrow>
          if MAX_RULES \<le> n then None
          else Some (r\<lparr>
            ru_severity_override_rule_ids :=
              (ru_severity_override_rule_ids r)[n := snprintf_s MAX_RULE_ID rule_id],
            ru_severity_override_values := (ru_severity_override_values r)[n := severity],
            ru_severity_override_count := n + 1\<rparr>))"

definition rule_id_disabled :: "edr_rules \<Rightarrow> string \<Rightarrow> bool" where
  "rule_id_disabled r rule_id =
     (let t = ru_disabled_rule_ids r
      in list_ex (\<lambda>v. v = rule_id) (take (vt_count t) (vt_values t)))"

definition effective_rule_severity :: "edr_rules \<Rightarrow> string \<Rightarrow> edr_severity \<Rightarrow> edr_severity" where
  "effective_rule_severity r rule_id default_severity =
     (case scan_down (\<lambda>idx. if ru_severity_override_rule_ids r ! idx = rule_id
                            then Some (ru_severity_override_values r ! idx) else None)
             (ru_severity_override_count r) of
        Some s \<Rightarrow> s | None \<Rightarrow> default_severity)"

definition default_flow_rule_severity :: "edr_rules \<Rightarrow> string \<Rightarrow> edr_severity" where
  "default_flow_rule_severity r rule_id =
     (if rule_id = FLOW_RULE_SENSITIVE_READ_THEN_PUBLIC_NET then EDR_SEV_CRITICAL
      else if rule_id = FLOW_RULE_SHELL_DOWNLOADER_PUBLIC_NET then EDR_SEV_CRITICAL
      else if rule_id = FLOW_RULE_NO_TTY_PUBLIC_TRANSFER_TOOL then
        (case ru_profile r of
           EDR_PROFILE_SERVER \<Rightarrow> EDR_SEV_CRITICAL
         | EDR_PROFILE_HIGH_SIGNAL \<Rightarrow> EDR_SEV_CRITICAL
         | EDR_PROFILE_DEVELOPER_WORKSTATION \<Rightarrow> EDR_SEV_INFO
         | EDR_PROFILE_BASELINE \<Rightarrow> EDR_SEV_WARN)
      else if rule_id = FLOW_RULE_IDLE_PUBLIC_TRANSFER_TOOL then
        (case ru_profile r of
           EDR_PROFILE_SERVER \<Rightarrow> EDR_SEV_CRITICAL
         | EDR_PROFILE_HIGH_SIGNAL \<Rightarrow> EDR_SEV_CRITICAL
         | EDR_PROFILE_DEVELOPER_WORKSTATION \<Rightarrow> EDR_SEV_WARN
         | EDR_PROFILE_BASELINE \<Rightarrow> EDR_SEV_WARN)
      else EDR_SEV_WARN)"

definition compiled_flow_rule_severity :: "edr_rules \<Rightarrow> string \<Rightarrow> edr_severity" where
  "compiled_flow_rule_severity r rule_id =
     effective_rule_severity r rule_id (default_flow_rule_severity r rule_id)"

definition default_flow_rule_score :: "edr_rules \<Rightarrow> string \<Rightarrow> bool \<Rightarrow> u32" where
  "default_flow_rule_score r rule_id suspicious_context =
     (if rule_id = FLOW_RULE_SENSITIVE_READ_THEN_PUBLIC_NET then
        (if suspicious_context then 95 else 90)
      else if rule_id = FLOW_RULE_SHELL_DOWNLOADER_PUBLIC_NET then 90
      else if rule_id = FLOW_RULE_NO_TTY_PUBLIC_TRANSFER_TOOL then
        (case ru_profile r of
           EDR_PROFILE_SERVER \<Rightarrow> 90
         | EDR_PROFILE_HIGH_SIGNAL \<Rightarrow> 90
         | EDR_PROFILE_DEVELOPER_WORKSTATION \<Rightarrow> 40
         | EDR_PROFILE_BASELINE \<Rightarrow> 70)
      else if rule_id = FLOW_RULE_IDLE_PUBLIC_TRANSFER_TOOL then
        (case ru_profile r of
           EDR_PROFILE_SERVER \<Rightarrow> 95
         | EDR_PROFILE_HIGH_SIGNAL \<Rightarrow> 95
         | EDR_PROFILE_DEVELOPER_WORKSTATION \<Rightarrow> 65
         | EDR_PROFILE_BASELINE \<Rightarrow> 85)
      else 0)"

text \<open>\<open>rule_controls_allow\<close>: \<open>None\<close> for \<open>false\<close>, else the severity written.\<close>

definition rule_controls_allow :: "edr_rules \<Rightarrow> string \<Rightarrow> edr_severity \<Rightarrow> edr_severity option" where
  "rule_controls_allow r rule_id default_severity =
     (if rule_id_disabled r rule_id then None
      else Some (effective_rule_severity r rule_id default_severity))"

definition rule_id_in_string_rules :: "string list \<Rightarrow> nat \<Rightarrow> string \<Rightarrow> bool" where
  "rule_id_in_string_rules rule_ids count rule_id = list_ex (\<lambda>v. v = rule_id) (take count rule_ids)"

definition rule_id_matches_family :: "string \<Rightarrow> string \<Rightarrow> bool" where
  "rule_id_matches_family rule_id family =
     (if length rule_id = length family then rule_id = family
      else length family < length rule_id \<and> strncmp_eq (length family) rule_id family \<and>
           rule_id ! length family = CHR ''.'')"

definition memory_rule_ids :: "string list" where
  "memory_rule_ids =
     [''mem.rwx_mprotect'', ''mem.exec_mprotect'', ''mem.rwx_mmap'', ''mem.anon_exec_mmap'']"

definition flow_rule_ids :: "string list" where
  "flow_rule_ids = [FLOW_RULE_SHELL_DOWNLOADER_PUBLIC_NET, FLOW_RULE_NO_TTY_PUBLIC_TRANSFER_TOOL,
     FLOW_RULE_SENSITIVE_READ_THEN_PUBLIC_NET, FLOW_RULE_IDLE_PUBLIC_TRANSFER_TOOL]"

definition known_rule_id :: "edr_rules \<Rightarrow> string \<Rightarrow> bool" where
  "known_rule_id r rule_id \<longleftrightarrow>
     list_ex (\<lambda>v. v = rule_id) memory_rule_ids \<or>
     list_ex (\<lambda>v. v = rule_id) flow_rule_ids \<or>
     rule_id_in_string_rules (rt_rule_ids (ru_suspicious_exec_exact r))
       (rt_count (ru_suspicious_exec_exact r)) rule_id \<or>
     rule_id_in_string_rules (rt_rule_ids (ru_suspicious_exec_prefix r))
       (rt_count (ru_suspicious_exec_prefix r)) rule_id \<or>
     rule_id_in_string_rules (rt_rule_ids (ru_sensitive_read r))
       (rt_count (ru_sensitive_read r)) rule_id \<or>
     rule_id_in_string_rules (rt_rule_ids (ru_sensitive_write r))
       (rt_count (ru_sensitive_write r)) rule_id \<or>
     rule_id_in_string_rules (rt_rule_ids (ru_suspicious_ports r))
       (rt_count (ru_suspicious_ports r)) rule_id"

section \<open>Profiles and defaults\<close>

definition string_rule_present :: "string list \<Rightarrow> nat \<Rightarrow> string \<Rightarrow> bool" where
  "string_rule_present values count value = list_ex (\<lambda>v. v = value) (take count values)"

definition add_profile_exec_exact_if_missing :: "string \<Rightarrow> edr_rules \<Rightarrow> edr_rules option" where
  "add_profile_exec_exact_if_missing value r =
     (let t = ru_suspicious_exec_exact r in
      if string_rule_present (rt_values t) (rt_count t) value then Some r
      else map_option (\<lambda>t. r\<lparr>ru_suspicious_exec_exact := t\<rparr>)
             (add_rule_value MAX_RULES value EDR_SEV_WARN ''exec.suspicious_exact'' t))"

definition drop_jit_comm :: "string \<Rightarrow> edr_rules \<Rightarrow> edr_rules" where
  "drop_jit_comm c r =
     r\<lparr>ru_jit_allow_comm := snd (remove_comm_rule c (ru_jit_allow_comm r))\<rparr>"

definition drop_exec_exact :: "string \<Rightarrow> edr_rules \<Rightarrow> edr_rules" where
  "drop_exec_exact c r =
     r\<lparr>ru_suspicious_exec_exact := snd (remove_rule_value c (ru_suspicious_exec_exact r))\<rparr>"

definition apply_profile :: "edr_profile \<Rightarrow> edr_rules \<Rightarrow> bool \<times> edr_rules" where
  "apply_profile profile r =
     (let r = r\<lparr>ru_profile := profile, ru_profile_name := profile_name profile\<rparr> in
      case profile of
        EDR_PROFILE_BASELINE \<Rightarrow> (True, r)
      | EDR_PROFILE_SERVER \<Rightarrow>
          (let r = drop_jit_comm ''chrome'' r;
               r = drop_jit_comm ''chromium'' r;
               r = drop_jit_comm ''firefox'' r
           in case add_profile_exec_exact_if_missing ''curl'' r of
                None \<Rightarrow> (False, r)
              | Some r \<Rightarrow> (case add_profile_exec_exact_if_missing ''wget'' r of
                             None \<Rightarrow> (False, r) | Some r \<Rightarrow> (True, r)))
      | EDR_PROFILE_DEVELOPER_WORKSTATION \<Rightarrow>
          (True, r\<lparr>ru_anon_exec_mmap_severity := EDR_SEV_INFO\<rparr>)
      | EDR_PROFILE_HIGH_SIGNAL \<Rightarrow>
          (True, drop_exec_exact ''sh'' (drop_exec_exact ''bash'' r)))"

definition default_exec_exact :: "string list" where
  "default_exec_exact = [''bash'', ''sh'', ''dash'', ''zsh'', ''curl'', ''wget'', ''nc'', ''ncat'',
     ''socat'', ''pkexec'', ''sudo'']"

definition default_exec_prefix :: "string list" where
  "default_exec_prefix = [''python'', ''perl'', ''ruby'']"

definition default_read_paths :: "string list" where
  "default_read_paths = [''/etc/shadow'', ''/etc/sudoers'', ''/etc/ssh/'', ''/root/.ssh/'',
     ''/.ssh/id_rsa'', ''/.ssh/id_ed25519'', ''/proc/kcore'']"

definition default_write_paths :: "string list" where
  "default_write_paths = [''/etc/passwd'', ''/etc/group'', ''/etc/shadow'', ''/etc/sudoers'',
     ''/etc/ssh/'', ''/root/.ssh/'', ''/.ssh/'', ''/etc/systemd/system/'', ''/etc/cron.'',
     ''/etc/crontab'']"

definition default_jit_allow :: "string list" where
  "default_jit_allow = [''node'', ''chrome'', ''chromium'', ''firefox'', ''java'']"

definition default_ports :: "string list" where
  "default_ports = [''4444'', ''5555'', ''6666'', ''6667'', ''1337'', ''31337'']"

text \<open>The loops of \<open>init_default_rules\<close> ignore the results of the \<open>add_*\<close> calls.\<close>

definition init_default_rules :: edr_rules where
  "init_default_rules = zero_rules\<lparr>
     ru_profile := EDR_PROFILE_BASELINE,
     ru_profile_name := profile_name EDR_PROFILE_BASELINE,
     ru_dedup_window_ns := DEFAULT_DEDUP_WINDOW_SECONDS * NS_PER_SECOND,
     ru_min_severity := EDR_SEV_WARN,
     ru_anon_exec_mmap_severity := EDR_SEV_WARN,
     ru_user_idle_threshold_seconds := DEFAULT_USER_IDLE_THRESHOLD_SECONDS,
     ru_suspicious_exec_exact :=
       fold (\<lambda>v. attempt (add_rule (v, EDR_SEV_WARN, ''exec.suspicious_exact'')))
         default_exec_exact (ru_suspicious_exec_exact zero_rules),
     ru_suspicious_exec_prefix :=
       fold (\<lambda>v. attempt (add_rule (v, EDR_SEV_WARN, ''exec.suspicious_prefix'')))
         default_exec_prefix (ru_suspicious_exec_prefix zero_rules),
     ru_sensitive_read :=
       fold (\<lambda>v. attempt (add_path (v, EDR_SEV_WARN, ''file.sensitive_read'')))
         default_read_paths (ru_sensitive_read zero_rules),
     ru_sensitive_write :=
       fold (\<lambda>v. attempt (add_path (v, EDR_SEV_CRITICAL, ''file.sensitive_write'')))
         default_write_paths (ru_sensitive_write zero_rules),
     ru_jit_allow_comm :=
       fold (\<lambda>v. attempt (add_comm_rule MAX_RULES v)) default_jit_allow (ru_jit_allow_comm zero_rules),
     ru_suspicious_ports :=
       fold (\<lambda>v. attempt (add_port (v, EDR_SEV_WARN, ''net.suspicious_port'')))
         default_ports (ru_suspicious_ports zero_rules)\<rparr>"

section \<open>The policy summary\<close>

record policy_summary =
  ps_profile_name :: string
  ps_suspicious_exec_exact_count :: nat
  ps_suspicious_exec_prefix_count :: nat
  ps_sensitive_read_count :: nat
  ps_sensitive_write_count :: nat
  ps_jit_allow_comm_count :: nat
  ps_suspicious_port_count :: nat
  ps_flow_allow_transfer_count :: nat
  ps_min_severity :: edr_severity
  ps_dedup_window_seconds :: u64
  ps_flow_sensitive_severity :: edr_severity
  ps_flow_sensitive_score :: u32
  ps_flow_shell_severity :: edr_severity
  ps_flow_shell_score :: u32
  ps_flow_no_tty_severity :: edr_severity
  ps_flow_no_tty_score :: u32
  ps_flow_idle_severity :: edr_severity
  ps_flow_idle_score :: u32
  ps_user_idle_threshold_seconds :: u32

definition current_policy_summary :: "edr_rules \<Rightarrow> policy_summary" where
  "current_policy_summary r = \<lparr>
     ps_profile_name = ru_profile_name r,
     ps_suspicious_exec_exact_count = rt_count (ru_suspicious_exec_exact r),
     ps_suspicious_exec_prefix_count = rt_count (ru_suspicious_exec_prefix r),
     ps_sensitive_read_count = rt_count (ru_sensitive_read r),
     ps_sensitive_write_count = rt_count (ru_sensitive_write r),
     ps_jit_allow_comm_count = vt_count (ru_jit_allow_comm r),
     ps_suspicious_port_count = rt_count (ru_suspicious_ports r),
     ps_flow_allow_transfer_count = vt_count (ru_flow_allow_transfer r),
     ps_min_severity = ru_min_severity r,
     ps_dedup_window_seconds = ru_dedup_window_ns r div NS_PER_SECOND,
     ps_flow_sensitive_severity =
       compiled_flow_rule_severity r FLOW_RULE_SENSITIVE_READ_THEN_PUBLIC_NET,
     ps_flow_sensitive_score =
       default_flow_rule_score r FLOW_RULE_SENSITIVE_READ_THEN_PUBLIC_NET False,
     ps_flow_shell_severity =
       compiled_flow_rule_severity r FLOW_RULE_SHELL_DOWNLOADER_PUBLIC_NET,
     ps_flow_shell_score =
       default_flow_rule_score r FLOW_RULE_SHELL_DOWNLOADER_PUBLIC_NET False,
     ps_flow_no_tty_severity =
       compiled_flow_rule_severity r FLOW_RULE_NO_TTY_PUBLIC_TRANSFER_TOOL,
     ps_flow_no_tty_score =
       default_flow_rule_score r FLOW_RULE_NO_TTY_PUBLIC_TRANSFER_TOOL False,
     ps_flow_idle_severity =
       compiled_flow_rule_severity r FLOW_RULE_IDLE_PUBLIC_TRANSFER_TOOL,
     ps_flow_idle_score =
       default_flow_rule_score r FLOW_RULE_IDLE_PUBLIC_TRANSFER_TOOL False,
     ps_user_idle_threshold_seconds = ru_user_idle_threshold_seconds r\<rparr>"

section \<open>Well-formed policies\<close>

definition override_ids :: "edr_rules \<Rightarrow> string list" where
  "override_ids r = take (ru_severity_override_count r) (ru_severity_override_rule_ids r)"

definition override_map :: "edr_rules \<Rightarrow> string \<Rightarrow> edr_severity option" where
  "override_map r =
     map_of (zip (override_ids r) (take (ru_severity_override_count r) (ru_severity_override_values r)))"

definition rules_wf :: "edr_rules \<Rightarrow> bool" where
  "rules_wf r \<longleftrightarrow>
     rt_wf (ru_suspicious_exec_exact r) \<and> rt_wf (ru_suspicious_exec_prefix r) \<and>
     rt_wf (ru_sensitive_read r) \<and> rt_wf (ru_sensitive_write r) \<and> rt_wf (ru_suspicious_ports r) \<and>
     vt_wf (ru_jit_allow_comm r) \<and> vt_wf (ru_flow_allow_transfer r) \<and>
     vt_wf (ru_disabled_rule_ids r) \<and>
     length (ru_severity_override_rule_ids r) = MAX_RULES \<and>
     length (ru_severity_override_values r) = MAX_RULES \<and>
     ru_severity_override_count r \<le> MAX_RULES \<and> distinct (override_ids r)"

named_theorems policy_simps \<open>rule controls in terms of sets and maps\<close>

lemma length_override_ids: "rules_wf r \<Longrightarrow> length (override_ids r) = ru_severity_override_count r"
  by (simp add: rules_wf_def override_ids_def)

lemma list_ex_eq_mem [simp]: "list_ex (\<lambda>v. v = x) xs \<longleftrightarrow> x \<in> set xs"
  by (auto simp: list_ex_iff)

lemma rule_id_disabled_iff [policy_simps]:
  "rule_id_disabled r i \<longleftrightarrow> i \<in> set (vt_rows (ru_disabled_rule_ids r))"
  by (simp add: rule_id_disabled_def vt_rows_def Let_def)

lemma override_map_nth:
  assumes "rules_wf r" and "k < ru_severity_override_count r"
  shows "override_map r (ru_severity_override_rule_ids r ! k) = Some (ru_severity_override_values r ! k)"
proof -
  have "override_map r (override_ids r ! k)
      = Some (take (ru_severity_override_count r) (ru_severity_override_values r) ! k)"
    unfolding override_map_def
    using assms length_override_ids [OF assms(1)]
    by (intro map_of_zip_nth) (simp_all add: rules_wf_def)
  then show ?thesis using assms by (simp add: override_ids_def)
qed

lemma override_map_None: "rules_wf r \<Longrightarrow> override_map r i = None \<longleftrightarrow> i \<notin> set (override_ids r)"
  unfolding override_map_def by (subst map_of_zip_is_None) (simp_all add: length_override_ids rules_wf_def)

lemma effective_rule_severity_map [policy_simps]:
  assumes "rules_wf r"
  shows "effective_rule_severity r i d = (case override_map r i of None \<Rightarrow> d | Some s \<Rightarrow> s)"
proof (cases "override_map r i")
  case None
  then have "i \<notin> set (override_ids r)" using assms by (simp add: override_map_None)
  then have "\<forall>k < ru_severity_override_count r. ru_severity_override_rule_ids r ! k \<noteq> i"
    using assms by (auto simp: override_ids_def rules_wf_def in_set_conv_nth)
  then have "scan_down (\<lambda>idx. if ru_severity_override_rule_ids r ! idx = i
      then Some (ru_severity_override_values r ! idx) else None) (ru_severity_override_count r) = None"
    by (simp add: scan_down_None)
  then show ?thesis using None by (simp add: effective_rule_severity_def)
next
  case (Some s)
  then have "i \<in> set (override_ids r)" using override_map_None [OF assms, of i] by auto
  then obtain k where k: "k < ru_severity_override_count r" "ru_severity_override_rule_ids r ! k = i"
    using assms by (auto simp: override_ids_def rules_wf_def in_set_conv_nth)
  then have v: "ru_severity_override_values r ! k = s" using override_map_nth [OF assms k(1)] Some by simp
  have u: "\<forall>j < ru_severity_override_count r. k < j \<longrightarrow> ru_severity_override_rule_ids r ! j \<noteq> i"
    using assms k by (auto simp: rules_wf_def override_ids_def distinct_conv_nth)
  have "scan_down (\<lambda>idx. if ru_severity_override_rule_ids r ! idx = i
      then Some (ru_severity_override_values r ! idx) else None) (ru_severity_override_count r) = Some s"
    using k v u by (auto simp: scan_down_Some intro!: exI [of _ k])
  then show ?thesis using Some by (simp add: effective_rule_severity_def)
qed

section \<open>The control entries\<close>

lemma valid_rule_id_fits: "valid_rule_id i \<Longrightarrow> snprintf_s MAX_RULE_ID i = i"
  by (simp add: valid_rule_id_def snprintf_s_fits)

lemma add_disabled_rule_id_Some:
  assumes "rules_wf r" and "valid_rule_id i" and "add_disabled_rule_id i r = Some r'"
  shows "rules_wf r'" and "override_map r' = override_map r"
    and "set (vt_rows (ru_disabled_rule_ids r')) = insert i (set (vt_rows (ru_disabled_rule_ids r)))"
proof -
  let ?t = "ru_disabled_rule_ids r"
  have t: "vt_wf ?t" using assms(1) by (simp add: rules_wf_def)
  have "(i \<in> set (vt_rows ?t) \<and> r' = r) \<or> (vt_count ?t < MAX_RULES \<and>
      r' = r\<lparr>ru_disabled_rule_ids := ?t\<lparr>vt_values := (vt_values ?t)[vt_count ?t := i],
             vt_count := vt_count ?t + 1\<rparr>\<rparr>)"
    using assms(2,3) by (auto simp: add_disabled_rule_id_def Let_def valid_rule_id_fits vt_rows_def
        split: if_splits)
  then show "rules_wf r'" "override_map r' = override_map r"
    "set (vt_rows (ru_disabled_rule_ids r')) = insert i (set (vt_rows ?t))"
    using t assms(1) vt_push_rows [OF t]
    by (auto simp: rules_wf_def override_map_def override_ids_def)
qed

lemma map_of_zip_update:
  "length ks = length vs \<Longrightarrow> distinct ks \<Longrightarrow> k < length ks \<Longrightarrow>
     map_of (zip ks (vs[k := v])) = (map_of (zip ks vs))(ks ! k \<mapsto> v)"
proof (induction ks vs arbitrary: k rule: list_induct2)
  case (Cons x xs y ys)
  then show ?case
    by (cases k) (auto simp: fun_eq_iff)
qed simp

lemma map_of_zip_snoc:
  "length ks = length vs \<Longrightarrow> k \<notin> set ks \<Longrightarrow>
     map_of (zip (ks @ [k]) (vs @ [v])) = (map_of (zip ks vs))(k \<mapsto> v)"
  by (induction ks vs rule: list_induct2) (auto simp: fun_eq_iff)

lemma add_rule_severity_override_Some:
  assumes "rules_wf r" and "valid_rule_id i" and "add_rule_severity_override i s r = Some r'"
  shows "rules_wf r' \<and> override_map r' = (override_map r)(i \<mapsto> s) \<and>
    ru_disabled_rule_ids r' = ru_disabled_rule_ids r"
proof (cases "first_index (\<lambda>v. v = i) (override_ids r)")
  case (Some k)
  let ?n = "ru_severity_override_count r"
  have k: "k < ?n" "override_ids r ! k = i"
    using Some assms(1) by (auto simp: first_index_Some length_override_ids)
  have r': "r' = r\<lparr>ru_severity_override_values := (ru_severity_override_values r)[k := s]\<rparr>"
    using Some assms(3) by (simp add: add_rule_severity_override_def Let_def override_ids_def)
  have "override_map r' = map_of (zip (override_ids r) ((take ?n (ru_severity_override_values r))[k := s]))"
    using r' k by (simp add: override_map_def override_ids_def take_update_swap)
  also have "\<dots> = (override_map r)(i \<mapsto> s)"
    unfolding override_map_def using assms(1) k length_override_ids [OF assms(1)]
    by (subst map_of_zip_update) (simp_all add: rules_wf_def)
  finally show ?thesis using r' assms(1) by (auto simp: rules_wf_def override_ids_def)
next
  case None
  let ?n = "ru_severity_override_count r"
  have n: "?n < MAX_RULES"
    and r': "r' = r\<lparr>ru_severity_override_rule_ids := (ru_severity_override_rule_ids r)[?n := i],
        ru_severity_override_values := (ru_severity_override_values r)[?n := s],
        ru_severity_override_count := ?n + 1\<rparr>"
    using None assms(2,3)
    by (auto simp: add_rule_severity_override_def Let_def override_ids_def valid_rule_id_fits
        split: if_splits)
  have i: "i \<notin> set (override_ids r)" using None by (auto simp: first_index_None)
  have ids: "override_ids r' = override_ids r @ [i]"
    using r' n assms(1) by (simp add: override_ids_def rules_wf_def take_Suc_conv_app_nth)
  have vals: "take (ru_severity_override_count r') (ru_severity_override_values r')
      = take ?n (ru_severity_override_values r) @ [s]"
    using r' n assms(1) by (simp add: rules_wf_def take_Suc_conv_app_nth)
  have "length (override_ids r) = length (take ?n (ru_severity_override_values r))"
    using length_override_ids [OF assms(1)] assms(1) by (simp add: rules_wf_def)
  then have "override_map r' = (override_map r)(i \<mapsto> s)"
    unfolding override_map_def ids vals using i by (rule map_of_zip_snoc)
  then show ?thesis using r' ids i n assms(1) by (auto simp: rules_wf_def)
qed

text \<open>
  What the rest of the daemon relies on in the rule controls: \<open>allow\<close> is the decision for a rule id
  with a default severity, disabling turns it off for that id, an override changes the severity for
  that id where it is not off.  Any list of control entries is then decided by three questions.
\<close>

datatype rule_control = Disable string | Override string edr_severity

fun control_id :: "rule_control \<Rightarrow> string" where
  "control_id (Disable i) = i"
| "control_id (Override i s) = i"

definition overrides_for :: "string \<Rightarrow> rule_control list \<Rightarrow> edr_severity list" where
  "overrides_for i cs = List.map_filter (\<lambda>c. case c of
     Override j s \<Rightarrow> if j = i then Some s else None | Disable j \<Rightarrow> None) cs"

lemma overrides_for_simps [simp]:
  "overrides_for i [] = []"
  "overrides_for i (Disable j # cs) = overrides_for i cs"
  "overrides_for i (Override j s # cs) = (if j = i then s # overrides_for i cs else overrides_for i cs)"
  by (simp_all add: overrides_for_def map_filter_simps)

text \<open>A list of entries, stopping at the first one refused.\<close>

fun enter_all :: "('c \<Rightarrow> 's \<Rightarrow> 's option) \<Rightarrow> 'c list \<Rightarrow> 's \<Rightarrow> 's option" where
  "enter_all f [] s = Some s"
| "enter_all f (c # cs) s = (case f c s of None \<Rightarrow> None | Some s' \<Rightarrow> enter_all f cs s')"

locale rule_controls =
  fixes inv :: "'s \<Rightarrow> bool"
    and ok :: "string \<Rightarrow> bool"
    and enter :: "rule_control \<Rightarrow> 's \<Rightarrow> 's option"
    and allow :: "'s \<Rightarrow> string \<Rightarrow> edr_severity \<Rightarrow> edr_severity option"
  assumes inv_enter: "inv s \<Longrightarrow> ok (control_id c) \<Longrightarrow> enter c s = Some s' \<Longrightarrow> inv s'"
    and allow_disable: "inv s \<Longrightarrow> ok i \<Longrightarrow> enter (Disable i) s = Some s' \<Longrightarrow>
      allow s' j d = (if j = i then None else allow s j d)"
    and allow_override: "inv s \<Longrightarrow> ok i \<Longrightarrow> enter (Override i v) s = Some s' \<Longrightarrow>
      allow s' j d = (if j = i then map_option (\<lambda>_. v) (allow s j d) else allow s j d)"
begin

theorem allow_after:
  assumes "inv s" and "\<forall>c \<in> set cs. ok (control_id c)" and "enter_all enter cs s = Some s'"
  shows "inv s' \<and> allow s' j d =
    (if Disable j \<in> set cs then None
     else map_option (\<lambda>e. last (e # overrides_for j cs)) (allow s j d))"
  using assms
proof (induction cs arbitrary: s)
  case Nil
  then show ?case by (simp add: option.map_ident)
next
  case (Cons c cs)
  obtain t where t: "enter c s = Some t" "enter_all enter cs t = Some s'"
    using Cons.prems(3) by (auto split: option.splits)
  have i: "inv t" using inv_enter t(1) Cons.prems by auto
  note IH = Cons.IH [OF i _ t(2)]
  show ?case
  proof (cases c)
    case (Disable i)
    have "allow t j d = (if j = i then None else allow s j d)"
      using allow_disable Cons.prems t(1) Disable by auto
    then show ?thesis using IH Cons.prems(2) Disable by auto
  next
    case (Override i v)
    have "allow t j d = (if j = i then map_option (\<lambda>_. v) (allow s j d) else allow s j d)"
      using allow_override Cons.prems t(1) Override by auto
    then show ?thesis using IH Cons.prems(2) Override by (auto simp: option.map_comp comp_def)
  qed
qed

end

definition enter_control :: "rule_control \<Rightarrow> edr_rules \<Rightarrow> edr_rules option" where
  "enter_control c r = (case c of Disable i \<Rightarrow> add_disabled_rule_id i r
     | Override i s \<Rightarrow> add_rule_severity_override i s r)"

interpretation policy_controls:
  rule_controls rules_wf valid_rule_id enter_control rule_controls_allow
proof unfold_locales
  show "rules_wf s'" if "rules_wf s" "valid_rule_id (control_id c)" "enter_control c s = Some s'"
    for s c s'
  proof (cases c)
    case (Disable i)
    then show ?thesis using that add_disabled_rule_id_Some(1) [of s i s'] by (simp add: enter_control_def)
  next
    case (Override i v)
    then show ?thesis
      using that add_rule_severity_override_Some [of s i v s'] by (simp add: enter_control_def)
  qed
next
  fix s i s' j d
  assume a: "rules_wf s" "valid_rule_id i" "enter_control (Disable i) s = Some s'"
  then have "add_disabled_rule_id i s = Some s'" by (simp add: enter_control_def)
  note d = add_disabled_rule_id_Some [OF a(1,2) this]
  show "rule_controls_allow s' j d = (if j = i then None else rule_controls_allow s j d)"
    by (simp add: rule_controls_allow_def rule_id_disabled_iff d(2,3)
        effective_rule_severity_map [OF a(1)] effective_rule_severity_map [OF d(1)])
next
  fix s i v s' j d
  assume a: "rules_wf s" "valid_rule_id i" "enter_control (Override i v) s = Some s'"
  then have "add_rule_severity_override i v s = Some s'" by (simp add: enter_control_def)
  note o = add_rule_severity_override_Some [OF a(1,2) this]
  then have w: "rules_wf s'" by simp
  show "rule_controls_allow s' j d =
      (if j = i then map_option (\<lambda>_. v) (rule_controls_allow s j d) else rule_controls_allow s j d)"
    using o by (simp add: rule_controls_allow_def rule_id_disabled_iff
        effective_rule_severity_map [OF a(1)] effective_rule_severity_map [OF w])
qed

section \<open>The defaults and the profiles\<close>

lemma fold_attempt_map: "fold (\<lambda>v. attempt (add (f v))) xs t = fold (\<lambda>a. attempt (add a)) (map f xs) t"
  by (simp add: fold_map comp_def)

lemma parse_default_ports:
  "map parse_port default_ports = map Some [4444, 5555, 6666, 6667, 1337, 31337]"
proof -
  have e: "default_ports = map fmt_u [4444, 5555, 6666, 6667, 1337, 31337]"
    by (simp add: default_ports_def radix.simps)
  show ?thesis unfolding e by (simp add: parse_port_fmt_u)
qed

lemma zero_rules_wf: "rules_wf zero_rules"
  by (simp add: rules_wf_def zero_rules_def override_ids_def)

text \<open>The rows the built-in defaults are meant to hold.\<close>

definition default_rows :: "edr_severity \<Rightarrow> string \<Rightarrow> 'v list \<Rightarrow> 'v rule_row list" where
  "default_rows sev rid vs = map (\<lambda>v. (v, sev, rid)) vs"

lemma init_default_tables:
  "rt_wf (ru_suspicious_exec_exact init_default_rules) \<and>
   rt_rows (ru_suspicious_exec_exact init_default_rules) =
     default_rows EDR_SEV_WARN ''exec.suspicious_exact'' default_exec_exact"
  "rt_wf (ru_suspicious_exec_prefix init_default_rules) \<and>
   rt_rows (ru_suspicious_exec_prefix init_default_rules) =
     default_rows EDR_SEV_WARN ''exec.suspicious_prefix'' default_exec_prefix"
  "rt_wf (ru_sensitive_read init_default_rules) \<and>
   rt_rows (ru_sensitive_read init_default_rules) =
     default_rows EDR_SEV_WARN ''file.sensitive_read'' default_read_paths"
  "rt_wf (ru_sensitive_write init_default_rules) \<and>
   rt_rows (ru_sensitive_write init_default_rules) =
     default_rows EDR_SEV_CRITICAL ''file.sensitive_write'' default_write_paths"
  "vt_wf (ru_jit_allow_comm init_default_rules) \<and>
   vt_rows (ru_jit_allow_comm init_default_rules) = default_jit_allow"
  "rt_wf (ru_suspicious_ports init_default_rules) \<and>
   rt_rows (ru_suspicious_ports init_default_rules) =
     default_rows EDR_SEV_WARN ''net.suspicious_port'' [4444, 5555, 6666, 6667, 1337, 31337]"
proof -
  note defs = init_default_rules_def zero_rules_def default_rows_def snprintf_s_def MAX_RULE_ID_def
    MAX_RULES_def
  show "rt_wf (ru_suspicious_exec_exact init_default_rules) \<and>
   rt_rows (ru_suspicious_exec_exact init_default_rules) =
     default_rows EDR_SEV_WARN ''exec.suspicious_exact'' default_exec_exact"
    using exec_store.add_batch [of "empty_rule_table []"
        "map (\<lambda>v. (v, EDR_SEV_WARN, ''exec.suspicious_exact'')) default_exec_exact"]
    by (simp add: defs default_exec_exact_def fold_attempt_map)
  show "rt_wf (ru_suspicious_exec_prefix init_default_rules) \<and>
   rt_rows (ru_suspicious_exec_prefix init_default_rules) =
     default_rows EDR_SEV_WARN ''exec.suspicious_prefix'' default_exec_prefix"
    using exec_store.add_batch [of "empty_rule_table []"
        "map (\<lambda>v. (v, EDR_SEV_WARN, ''exec.suspicious_prefix'')) default_exec_prefix"]
    by (simp add: defs default_exec_prefix_def fold_attempt_map)
  show "rt_wf (ru_sensitive_read init_default_rules) \<and>
   rt_rows (ru_sensitive_read init_default_rules) =
     default_rows EDR_SEV_WARN ''file.sensitive_read'' default_read_paths"
    using path_store.add_batch [of "empty_rule_table []"
        "map (\<lambda>v. (v, EDR_SEV_WARN, ''file.sensitive_read'')) default_read_paths"]
    by (simp add: defs default_read_paths_def fold_attempt_map)
  show "rt_wf (ru_sensitive_write init_default_rules) \<and>
   rt_rows (ru_sensitive_write init_default_rules) =
     default_rows EDR_SEV_CRITICAL ''file.sensitive_write'' default_write_paths"
    using path_store.add_batch [of "empty_rule_table []"
        "map (\<lambda>v. (v, EDR_SEV_CRITICAL, ''file.sensitive_write'')) default_write_paths"]
    by (simp add: defs default_write_paths_def fold_attempt_map)
  show "vt_wf (ru_jit_allow_comm init_default_rules) \<and>
   vt_rows (ru_jit_allow_comm init_default_rules) = default_jit_allow"
    using comm_store.add_batch [of "empty_value_table []" default_jit_allow]
    by (simp add: defs default_jit_allow_def)
  show "rt_wf (ru_suspicious_ports init_default_rules) \<and>
   rt_rows (ru_suspicious_ports init_default_rules) =
     default_rows EDR_SEV_WARN ''net.suspicious_port'' [4444, 5555, 6666, 6667, 1337, 31337]"
    using port_store.add_batch [of "empty_rule_table 0"
        "map (\<lambda>v. (v, EDR_SEV_WARN, ''net.suspicious_port'')) default_ports"] parse_default_ports
    by (simp add: defs default_ports_def fold_attempt_map)
qed

lemma init_default_fields:
  "ru_profile init_default_rules = EDR_PROFILE_BASELINE"
  "ru_profile_name init_default_rules = ''baseline''"
  "ru_flow_allow_transfer init_default_rules = empty_value_table []"
  "ru_disabled_rule_ids init_default_rules = empty_value_table []"
  "ru_severity_override_rule_ids init_default_rules = replicate MAX_RULES []"
  "ru_severity_override_values init_default_rules = replicate MAX_RULES EDR_SEV_INFO"
  "ru_severity_override_count init_default_rules = 0"
  "ru_dedup_window_ns init_default_rules = 5000000000"
  "ru_min_severity init_default_rules = EDR_SEV_WARN"
  "ru_anon_exec_mmap_severity init_default_rules = EDR_SEV_WARN"
  "ru_user_idle_threshold_seconds init_default_rules = 300"
  by (simp_all add: init_default_rules_def zero_rules_def profile_name_def NS_PER_SECOND_def
      DEFAULT_DEDUP_WINDOW_SECONDS_def DEFAULT_USER_IDLE_THRESHOLD_SECONDS_def)

lemma init_default_rules_wf: "rules_wf init_default_rules"
  using init_default_tables by (simp add: rules_wf_def init_default_fields override_ids_def)

lemma init_default_controls: "override_map init_default_rules i = None"
  "\<not> rule_id_disabled init_default_rules i"
  by (simp_all add: override_map_def override_ids_def init_default_fields rule_id_disabled_iff)

text \<open>
  The table of the four flow rules by profile: the default severity, as
  \<open>plan/architecture/BEHAVIORAL_FLOWS.md\<close> lists it, and the score outside a suspicious context.
  It is written by profile, where the code decides rule by rule, and serves as the specification.
\<close>

definition flow_defaults :: "edr_profile \<Rightarrow> (string \<times> edr_severity \<times> nat) list" where
  "flow_defaults p =
     [(''flow.shell_downloader_public_net'', EDR_SEV_CRITICAL, 90),
      (''flow.sensitive_read_then_public_net'', EDR_SEV_CRITICAL, 90)] @
     (case p of
        EDR_PROFILE_BASELINE \<Rightarrow>
          [(''flow.no_tty_public_transfer_tool'', EDR_SEV_WARN, 70),
           (''flow.idle_public_transfer_tool'', EDR_SEV_WARN, 85)]
      | EDR_PROFILE_DEVELOPER_WORKSTATION \<Rightarrow>
          [(''flow.no_tty_public_transfer_tool'', EDR_SEV_INFO, 40),
           (''flow.idle_public_transfer_tool'', EDR_SEV_WARN, 65)]
      | _ \<Rightarrow>
          [(''flow.no_tty_public_transfer_tool'', EDR_SEV_CRITICAL, 90),
           (''flow.idle_public_transfer_tool'', EDR_SEV_CRITICAL, 95)])"

lemma flow_defaults_code:
  "list_all (\<lambda>(i, s, n). i \<in> set flow_rule_ids \<and> default_flow_rule_severity r i = s \<and>
     default_flow_rule_score r i False = of_nat n \<and> n < 100) (flow_defaults (ru_profile r))"
  by (cases "ru_profile r")
    (simp_all add: flow_defaults_def default_flow_rule_severity_def default_flow_rule_score_def
      flow_rule_ids_def flow_rule_names)

lemma flow_defaults_at:
  assumes "map_of (flow_defaults (ru_profile r)) i = Some (s, n)"
  shows "default_flow_rule_severity r i = s" and "default_flow_rule_score r i False = of_nat n"
    and "n < 100"
  using flow_defaults_code [of r] map_of_SomeD [OF assms] by (fastforce simp: list_all_iff)+

lemma flow_defaults_all:
  "i \<in> set flow_rule_ids \<Longrightarrow> \<exists>s n. map_of (flow_defaults p) i = Some (s, n)"
  by (cases p) (auto simp: flow_defaults_def flow_rule_ids_def flow_rule_names)

lemma drop_jit_comm_rows:
  assumes "rules_wf r"
  shows "rules_wf (drop_jit_comm c r)"
    and "vt_rows (ru_jit_allow_comm (drop_jit_comm c r)) =
      filter (\<lambda>v. v \<noteq> c) (vt_rows (ru_jit_allow_comm r))"
  using assms comm_store.inv_remove [of "ru_jit_allow_comm r"]
    comm_store.rows_remove [of "ru_jit_allow_comm r"]
  by (simp_all add: rules_wf_def drop_jit_comm_def override_ids_def)

lemma drop_exec_exact_rows:
  assumes "rules_wf r"
  shows "rules_wf (drop_exec_exact c r)"
    and "rt_rows (ru_suspicious_exec_exact (drop_exec_exact c r)) =
      filter (\<lambda>row. fst row \<noteq> c) (rt_rows (ru_suspicious_exec_exact r))"
  using assms exec_store.inv_remove [of "ru_suspicious_exec_exact r"]
    exec_store.rows_remove [of "ru_suspicious_exec_exact r"]
  by (simp_all add: rules_wf_def drop_exec_exact_def override_ids_def)

lemma string_rule_present_iff:
  "rt_wf t \<Longrightarrow> string_rule_present (rt_values t) (rt_count t) v \<longleftrightarrow> v \<in> fst ` set (rt_rows t)"
  by (force simp: string_rule_present_def rt_rows_def rt_wf_def take_zip in_set_zip image_iff
      in_set_conv_nth)

lemma add_profile_exec_exact_rows:
  assumes "rules_wf r" and "length v < 64" and "add_profile_exec_exact_if_missing v r = Some r'"
  shows "rules_wf r' \<and> r' = r\<lparr>ru_suspicious_exec_exact := ru_suspicious_exec_exact r'\<rparr> \<and>
    rt_rows (ru_suspicious_exec_exact r') =
      (let rows = rt_rows (ru_suspicious_exec_exact r) in
       if v \<in> fst ` set rows then rows
       else rows @ [(v, EDR_SEV_WARN, ''exec.suspicious_exact'')])"
proof -
  let ?t = "ru_suspicious_exec_exact r"
  have t: "rt_wf ?t" using assms(1) by (simp add: rules_wf_def)
  show ?thesis
  proof (cases "v \<in> fst ` set (rt_rows ?t)")
    case True
    then show ?thesis using assms t
      by (simp add: add_profile_exec_exact_if_missing_def string_rule_present_iff)
  next
    case False
    then obtain t' where a: "add_rule (v, EDR_SEV_WARN, ''exec.suspicious_exact'') ?t = Some t'"
      and r': "r' = r\<lparr>ru_suspicious_exec_exact := t'\<rparr>"
      using assms(3) t
      by (auto simp: add_profile_exec_exact_if_missing_def string_rule_present_iff add_rule_def)
    show ?thesis using exec_store.add_Some [OF t a] False r' assms(1,2)
      by (auto simp: rules_wf_def override_ids_def snprintf_s_def MAX_RULE_ID_def)
  qed
qed

lemma add_profile_exec_exact_None:
  assumes "rules_wf r"
  shows "add_profile_exec_exact_if_missing v r = None \<longleftrightarrow>
    v \<notin> fst ` set (rt_rows (ru_suspicious_exec_exact r)) \<and>
    length (rt_rows (ru_suspicious_exec_exact r)) = MAX_RULES"
proof -
  have t: "rt_wf (ru_suspicious_exec_exact r)" using assms by (simp add: rules_wf_def)
  show ?thesis
    using exec_store.add_None [OF t, of "(v, EDR_SEV_WARN, ''exec.suspicious_exact'')"]
      exec_store.bounded [OF t]
    by (simp add: add_profile_exec_exact_if_missing_def string_rule_present_iff [OF t] add_rule_def Let_def)
      linarith
qed

lemma drop_browsers:
  assumes "rules_wf s"
  defines "t \<equiv> drop_jit_comm ''firefox'' (drop_jit_comm ''chromium'' (drop_jit_comm ''chrome'' s))"
  shows "rules_wf t"
    and "\<exists>j. t = s\<lparr>ru_jit_allow_comm := j\<rparr> \<and>
      vt_rows j = filter (\<lambda>c. c \<notin> {''chrome'', ''chromium'', ''firefox''}) (vt_rows (ru_jit_allow_comm s))"
proof -
  have w1: "rules_wf (drop_jit_comm ''chrome'' s)" by (rule drop_jit_comm_rows(1) [OF assms(1)])
  have w2: "rules_wf (drop_jit_comm ''chromium'' (drop_jit_comm ''chrome'' s))"
    by (rule drop_jit_comm_rows(1) [OF w1])
  show "rules_wf t" unfolding t_def by (rule drop_jit_comm_rows(1) [OF w2])
  have "vt_rows (ru_jit_allow_comm t) = filter (\<lambda>v. v \<noteq> ''firefox'') (filter (\<lambda>v. v \<noteq> ''chromium'')
      (filter (\<lambda>v. v \<noteq> ''chrome'') (vt_rows (ru_jit_allow_comm s))))"
    by (simp only: t_def drop_jit_comm_rows(2) [OF w2] drop_jit_comm_rows(2) [OF w1]
        drop_jit_comm_rows(2) [OF assms(1)])
  also have "\<dots> = filter (\<lambda>c. c \<notin> {''chrome'', ''chromium'', ''firefox''})
      (vt_rows (ru_jit_allow_comm s))"
    by (simp only: filter_filter) (rule filter_cong, auto)
  finally show "\<exists>j. t = s\<lparr>ru_jit_allow_comm := j\<rparr> \<and>
      vt_rows j = filter (\<lambda>c. c \<notin> {''chrome'', ''chromium'', ''firefox''}) (vt_rows (ru_jit_allow_comm s))"
    by (intro exI [of _ "ru_jit_allow_comm t"]) (simp add: t_def drop_jit_comm_def)
qed

text \<open>
  The rows the server profile appends to the executable table: \<open>curl\<close> and \<open>wget\<close>, each
  when the table does not list it yet.
\<close>

definition server_rows :: "string rule_row list \<Rightarrow> string rule_row list" where
  "server_rows rows = map (\<lambda>v. (v, EDR_SEV_WARN, ''exec.suspicious_exact''))
     (filter (\<lambda>v. v \<notin> fst ` set rows) [''curl'', ''wget''])"

lemma list_both:
  assumes t: "rules_wf t"
    and run: "(case add_profile_exec_exact_if_missing ''curl'' t of None \<Rightarrow> (False, t)
        | Some u \<Rightarrow> (case add_profile_exec_exact_if_missing ''wget'' u of None \<Rightarrow> (False, u)
                      | Some u' \<Rightarrow> (True, u'))) = (ok, r')"
  defines "rows \<equiv> rt_rows (ru_suspicious_exec_exact t)"
  shows "rules_wf r'" and "\<exists>e. r' = t\<lparr>ru_suspicious_exec_exact := e\<rparr>"
    and "rt_rows (ru_suspicious_exec_exact r') = take MAX_RULES (rows @ server_rows rows)"
    and "ok \<longleftrightarrow> length (rows @ server_rows rows) \<le> MAX_RULES"
proof -
  have last_slot: "Suc (length rows) = MAX_RULES \<Longrightarrow> MAX_RULES - length rows = Suc 0" by simp
  have len: "length (rt_rows (ru_suspicious_exec_exact q)) \<le> MAX_RULES" if "rules_wf q" for q
    using exec_store.bounded that by (auto simp: rules_wf_def)
  have "rules_wf r' \<and> (\<exists>e. r' = t\<lparr>ru_suspicious_exec_exact := e\<rparr>) \<and>
    rt_rows (ru_suspicious_exec_exact r') = take MAX_RULES (rows @ server_rows rows) \<and>
    (ok \<longleftrightarrow> length (rows @ server_rows rows) \<le> MAX_RULES)"
  proof (cases "add_profile_exec_exact_if_missing ''curl'' t")
    case None
    moreover have "\<exists>e. t = t\<lparr>ru_suspicious_exec_exact := e\<rparr>"
      by (rule exI [of _ "ru_suspicious_exec_exact t"]) simp
    ultimately show ?thesis
      using run t add_profile_exec_exact_None [OF t, of "''curl''"] by (simp add: rows_def server_rows_def)
  next
    case (Some u)
    note u = add_profile_exec_exact_rows [OF t _ Some, simplified]
    have uw: "rules_wf u" using u by blast
    obtain e where e: "u = t\<lparr>ru_suspicious_exec_exact := e\<rparr>" using u by blast
    have c: "rt_rows (ru_suspicious_exec_exact u) =
        (if ''curl'' \<in> fst ` set rows then rows
         else rows @ [(''curl'', EDR_SEV_WARN, ''exec.suspicious_exact'')])"
      using u by (simp only: rows_def Let_def)
    show ?thesis
    proof (cases "add_profile_exec_exact_if_missing ''wget'' u")
      case None
      then show ?thesis
        using run Some uw e c add_profile_exec_exact_None [OF uw, of "''wget''"] last_slot
        by (auto simp: server_rows_def split: if_splits)
    next
      case S: (Some u')
      note u' = add_profile_exec_exact_rows [OF uw _ S, simplified]
      obtain e' where e': "u' = u\<lparr>ru_suspicious_exec_exact := e'\<rparr>" using u' by blast
      have "rt_rows (ru_suspicious_exec_exact u') = rows @ server_rows rows"
        using u' c by (auto simp: Let_def server_rows_def)
      then show ?thesis using run Some S u' e e' len [of u'] by auto
    qed
  qed
  then show "rules_wf r'" "\<exists>e. r' = t\<lparr>ru_suspicious_exec_exact := e\<rparr>"
    "rt_rows (ru_suspicious_exec_exact r') = take MAX_RULES (rows @ server_rows rows)"
    "ok \<longleftrightarrow> length (rows @ server_rows rows) \<le> MAX_RULES" by blast+
qed

lemma drop_shells:
  assumes "rules_wf s"
  defines "t \<equiv> drop_exec_exact ''sh'' (drop_exec_exact ''bash'' s)"
  shows "rules_wf t"
    and "\<exists>e. t = s\<lparr>ru_suspicious_exec_exact := e\<rparr> \<and> rt_rows e =
      filter (\<lambda>row. fst row \<notin> {''bash'', ''sh''}) (rt_rows (ru_suspicious_exec_exact s))"
proof -
  have w: "rules_wf (drop_exec_exact ''bash'' s)" by (rule drop_exec_exact_rows(1) [OF assms(1)])
  show "rules_wf t" unfolding t_def by (rule drop_exec_exact_rows(1) [OF w])
  have "rt_rows (ru_suspicious_exec_exact t) = filter (\<lambda>row. fst row \<noteq> ''sh'')
      (filter (\<lambda>row. fst row \<noteq> ''bash'') (rt_rows (ru_suspicious_exec_exact s)))"
    by (simp only: t_def drop_exec_exact_rows(2) [OF w] drop_exec_exact_rows(2) [OF assms(1)])
  also have "\<dots> = filter (\<lambda>row. fst row \<notin> {''bash'', ''sh''}) (rt_rows (ru_suspicious_exec_exact s))"
    by (simp only: filter_filter) (rule filter_cong, auto)
  finally show "\<exists>e. t = s\<lparr>ru_suspicious_exec_exact := e\<rparr> \<and> rt_rows e =
      filter (\<lambda>row. fst row \<notin> {''bash'', ''sh''}) (rt_rows (ru_suspicious_exec_exact s))"
    by (intro exI [of _ "ru_suspicious_exec_exact t"]) (simp add: t_def drop_exec_exact_def)
qed

lemma parse_profile_name: "parse_profile (profile_name p) = Some p"
  by (cases p) (simp_all add: parse_profile_def profile_name_def)

lemma rules_wf_profile [simp]:
  "rules_wf (r\<lparr>ru_profile := p\<rparr>) = rules_wf r" "rules_wf (r\<lparr>ru_profile_name := n\<rparr>) = rules_wf r"
  "rules_wf (r\<lparr>ru_anon_exec_mmap_severity := s\<rparr>) = rules_wf r"
  by (simp_all add: rules_wf_def override_ids_def)

section \<open>Properties\<close>

text \<open>
  C21.  Rule controls: after any list of disable and severity entries with valid ids, the decision for
  a rule id is no finding exactly when the id was disabled, before or by the list; otherwise the last
  severity entered for it, or what it was before.  The order of entries for different ids does not
  matter, and no entry damages the tables.
\<close>

theorem control_entries_decide:
  assumes "rules_wf r" and "\<forall>c \<in> set cs. valid_rule_id (control_id c)"
    and "enter_all enter_control cs r = Some r'"
  shows "rules_wf r' \<and> rule_controls_allow r' i d =
    (if Disable i \<in> set cs then None
     else map_option (\<lambda>e. last (e # overrides_for i cs)) (rule_controls_allow r i d))"
  using assms by (rule policy_controls.allow_after)

lemma control_entries_decide_witness:
  "\<exists>r. enter_all enter_control [Override ''mem.rwx_mmap'' EDR_SEV_INFO, Disable ''a.b'',
        Override ''mem.rwx_mmap'' EDR_SEV_WARN] init_default_rules = Some r \<and>
     rule_controls_allow r ''mem.rwx_mmap'' EDR_SEV_CRITICAL = Some EDR_SEV_WARN \<and>
     rule_controls_allow r ''a.b'' EDR_SEV_WARN = None"
proof -
  let ?cs = "[Override ''mem.rwx_mmap'' EDR_SEV_INFO, Disable ''a.b'',
        Override ''mem.rwx_mmap'' EDR_SEV_WARN]"
  obtain r where r: "enter_all enter_control ?cs init_default_rules = Some r"
    by (simp add: enter_control_def add_rule_severity_override_def add_disabled_rule_id_def
        init_default_fields empty_value_table_def MAX_RULES_def MAX_RULE_ID_def snprintf_s_def Let_def
        numeral_eq_Suc)
  have ok: "\<forall>c \<in> set ?cs. valid_rule_id (control_id c)"
    by (simp add: valid_rule_id_def MAX_RULE_ID_def rule_id_char_def)
  note t = control_entries_decide [OF init_default_rules_wf ok r]
  show ?thesis
    using r t [of "''mem.rwx_mmap''" EDR_SEV_CRITICAL] t [of "''a.b''" EDR_SEV_WARN]
    by (simp add: rule_controls_allow_def init_default_controls)
qed

text \<open>
  The built-in policy is complete: no default rule is dropped or cut, every port text denotes its
  number, each table holds its list with one severity and rule id, and nothing is disabled.
\<close>

lemma init_default_rules_complete:
  "rules_wf init_default_rules \<and>
   rt_rows (ru_suspicious_exec_exact init_default_rules) =
     map (\<lambda>v. (v, EDR_SEV_WARN, ''exec.suspicious_exact'')) default_exec_exact \<and>
   rt_rows (ru_suspicious_exec_prefix init_default_rules) =
     map (\<lambda>v. (v, EDR_SEV_WARN, ''exec.suspicious_prefix'')) default_exec_prefix \<and>
   rt_rows (ru_sensitive_read init_default_rules) =
     map (\<lambda>v. (v, EDR_SEV_WARN, ''file.sensitive_read'')) default_read_paths \<and>
   rt_rows (ru_sensitive_write init_default_rules) =
     map (\<lambda>v. (v, EDR_SEV_CRITICAL, ''file.sensitive_write'')) default_write_paths \<and>
   vt_rows (ru_jit_allow_comm init_default_rules) = default_jit_allow \<and>
   rt_rows (ru_suspicious_ports init_default_rules) =
     map (\<lambda>v. (v, EDR_SEV_WARN, ''net.suspicious_port'')) [4444, 5555, 6666, 6667, 1337, 31337] \<and>
   (\<forall>i d. rule_controls_allow init_default_rules i d = Some d) \<and>
   ru_dedup_window_ns init_default_rules = 5 * NS_PER_SECOND \<and>
   ru_user_idle_threshold_seconds init_default_rules = 300 \<and>
   ru_min_severity init_default_rules = EDR_SEV_WARN"
  by (auto simp: init_default_tables [unfolded default_rows_def] init_default_rules_wf
      init_default_fields NS_PER_SECOND_def rule_controls_allow_def init_default_controls
      effective_rule_severity_map)

text \<open>
  C34.  The complete effect of applying a profile.  It sets the profile and its name (which the parser
  of the configuration reads back), keeps the policy well formed, and changes at most three other
  fields.  The server profile takes the browsers off the JIT list and appends \<open>curl\<close> and
  \<open>wget\<close> to the executable table, each only when it is not listed, the other rows and their
  order being kept and the table cut at its capacity; the high-signal profile drops the rows of
  \<open>bash\<close> and \<open>sh\<close>; the developer-workstation profile makes anonymous executable mappings
  informational; the baseline changes nothing else.  It fails exactly when the rows to append
  do not fit.
\<close>

theorem apply_profile_effect:
  assumes "rules_wf r" and "apply_profile p r = (ok, r')"
  shows "rules_wf r' \<and> parse_profile (ru_profile_name r') = Some p \<and>
    r' = r\<lparr>ru_profile := p, ru_profile_name := ru_profile_name r',
      ru_suspicious_exec_exact := ru_suspicious_exec_exact r',
      ru_jit_allow_comm := ru_jit_allow_comm r',
      ru_anon_exec_mmap_severity := (if p = EDR_PROFILE_DEVELOPER_WORKSTATION then EDR_SEV_INFO
                                     else ru_anon_exec_mmap_severity r)\<rparr> \<and>
    vt_rows (ru_jit_allow_comm r') =
      (if p = EDR_PROFILE_SERVER
       then filter (\<lambda>c. c \<notin> {''chrome'', ''chromium'', ''firefox''}) (vt_rows (ru_jit_allow_comm r))
       else vt_rows (ru_jit_allow_comm r)) \<and>
    (let rows = rt_rows (ru_suspicious_exec_exact r);
         listed = rows @ map (\<lambda>v. (v, EDR_SEV_WARN, ''exec.suspicious_exact''))
                           (filter (\<lambda>v. v \<notin> fst ` set rows) [''curl'', ''wget''])
     in rt_rows (ru_suspicious_exec_exact r') =
          (case p of EDR_PROFILE_SERVER \<Rightarrow> take MAX_RULES listed
           | EDR_PROFILE_HIGH_SIGNAL \<Rightarrow> filter (\<lambda>row. fst row \<notin> {''bash'', ''sh''}) rows
           | _ \<Rightarrow> rows) \<and>
        (ok \<longleftrightarrow> p \<noteq> EDR_PROFILE_SERVER \<or> length listed \<le> MAX_RULES))"
proof -
  define s where "s = r\<lparr>ru_profile := p, ru_profile_name := profile_name p\<rparr>"
  have s: "rules_wf s" using assms(1) by (simp add: s_def)
  have run: "apply_profile p r = (ok, r')" by (rule assms(2))
  note parse = parse_profile_name [of p]
  show ?thesis
  proof (cases p)
    case EDR_PROFILE_BASELINE
    then show ?thesis using run s parse by (auto simp: apply_profile_def s_def)
  next
    case EDR_PROFILE_DEVELOPER_WORKSTATION
    then show ?thesis using run s parse by (auto simp: apply_profile_def s_def)
  next
    case EDR_PROFILE_HIGH_SIGNAL
    have ok and r': "r' = drop_exec_exact ''sh'' (drop_exec_exact ''bash'' s)"
      using run EDR_PROFILE_HIGH_SIGNAL by (simp_all add: apply_profile_def s_def Let_def)
    obtain e where e: "r' = s\<lparr>ru_suspicious_exec_exact := e\<rparr>" "rt_rows e =
        filter (\<lambda>row. fst row \<notin> {''bash'', ''sh''}) (rt_rows (ru_suspicious_exec_exact s))"
      using drop_shells(2) [OF s] r' by blast
    have "rules_wf r'" using drop_shells(1) [OF s] r' by simp
    then show ?thesis using e \<open>ok\<close> EDR_PROFILE_HIGH_SIGNAL parse by (simp add: s_def Let_def)
  next
    case EDR_PROFILE_SERVER
    define t where "t = drop_jit_comm ''firefox'' (drop_jit_comm ''chromium'' (drop_jit_comm ''chrome'' s))"
    have t: "rules_wf t" using drop_browsers(1) [OF s] by (simp add: t_def)
    obtain j where j: "t = s\<lparr>ru_jit_allow_comm := j\<rparr>"
      "vt_rows j = filter (\<lambda>c. c \<notin> {''chrome'', ''chromium'', ''firefox''}) (vt_rows (ru_jit_allow_comm s))"
      using drop_browsers(2) [OF s] unfolding t_def [symmetric] by blast
    have "(case add_profile_exec_exact_if_missing ''curl'' t of None \<Rightarrow> (False, t)
        | Some u \<Rightarrow> (case add_profile_exec_exact_if_missing ''wget'' u of None \<Rightarrow> (False, u)
                      | Some u' \<Rightarrow> (True, u'))) = (ok, r')"
      using run unfolding t_def s_def EDR_PROFILE_SERVER apply_profile_def Let_def by simp
    note b = list_both [OF t this]
    have rows: "rt_rows (ru_suspicious_exec_exact t) = rt_rows (ru_suspicious_exec_exact r)"
      by (simp add: j(1) s_def)
    obtain e where "r' = t\<lparr>ru_suspicious_exec_exact := e\<rparr>" using b(2) by blast
    then show ?thesis using b(1) b(3,4) [unfolded rows server_rows_def] j EDR_PROFILE_SERVER parse
      by (simp add: s_def Let_def)
  qed
qed

lemma apply_profile_effect_witness:
  "\<exists>ok r. apply_profile EDR_PROFILE_HIGH_SIGNAL init_default_rules = (ok, r) \<and> rules_wf r \<and>
     fst ` set (rt_rows (ru_suspicious_exec_exact r)) =
       {''dash'', ''zsh'', ''curl'', ''wget'', ''nc'', ''ncat'', ''socat'', ''pkexec'', ''sudo''}"
proof -
  obtain ok r where r: "apply_profile EDR_PROFILE_HIGH_SIGNAL init_default_rules = (ok, r)"
    by (cases "apply_profile EDR_PROFILE_HIGH_SIGNAL init_default_rules")
  show ?thesis
    using apply_profile_effect [OF init_default_rules_wf r] r init_default_tables(1)
    by (intro exI [of _ ok] exI [of _ r]) (auto simp: default_rows_def default_exec_exact_def)
qed

text \<open>
  Families: a rule id belongs to a family exactly when it is the family's name or extends it after
  a dot; in particular a family is never matched by a longer word that merely starts like it.
\<close>

lemma rule_id_matches_family_iff:
  "rule_id_matches_family rule_id family \<longleftrightarrow>
     rule_id = family \<or> (\<exists>rest. rule_id = family @ ''.'' @ rest)"
proof
  assume m: "rule_id_matches_family rule_id family"
  show "rule_id = family \<or> (\<exists>rest. rule_id = family @ ''.'' @ rest)"
  proof (cases "length rule_id = length family")
    case True
    then show ?thesis using m by (simp add: rule_id_matches_family_def)
  next
    case False
    then obtain t where t: "rule_id = family @ t" "t \<noteq> []" "hd t = CHR ''.''"
      using m by (auto simp: rule_id_matches_family_def strncmp_eq_prefix prefix_def nth_append hd_conv_nth)
    then show ?thesis by (cases t) auto
  qed
qed (auto simp: rule_id_matches_family_def strncmp_eq_prefix)

end
