(* ===== verification/Detect.thy ===== *)
theory Detect
  imports Common NetClass Policy
begin

text \<open>
  The single-event detection rules (\<open>dev/host/asic_main.c\<close>): findings, the rule scans over the
  policy's tables, and the classification of flag words.  The scans run from the last rule to the
  first and skip rules that are disabled; the lemmas turn them into a search of the table's rows.
\<close>

section \<open>Findings\<close>

text \<open>
  A rule id pointer: a string literal of the code, or a slot of one of the rule tables.  The code
  compares these pointers, so they are kept apart from the text they point to.  Reasons are always
  literals, one per call that makes a finding, and are held as their text.
\<close>

datatype rule_ref = Rid_Lit string | Rid_Exec_Exact nat | Rid_Exec_Prefix nat
  | Rid_Read nat | Rid_Write nat | Rid_Port nat

fun rule_text :: "edr_rules \<Rightarrow> rule_ref \<Rightarrow> string" where
  "rule_text r (Rid_Lit s) = s"
| "rule_text r (Rid_Exec_Exact i) = rt_rule_ids (ru_suspicious_exec_exact r) ! i"
| "rule_text r (Rid_Exec_Prefix i) = rt_rule_ids (ru_suspicious_exec_prefix r) ! i"
| "rule_text r (Rid_Read i) = rt_rule_ids (ru_sensitive_read r) ! i"
| "rule_text r (Rid_Write i) = rt_rule_ids (ru_sensitive_write r) ! i"
| "rule_text r (Rid_Port i) = rt_rule_ids (ru_suspicious_ports r) ! i"

record edr_finding =
  f_severity :: edr_severity
  f_rule_id :: rule_ref
  f_reason :: string
  f_has_flow :: bool
  f_flow_id :: "rule_ref option"
  f_flow_score :: u32
  f_flow_reasons :: "string option"
  f_flow_window_seconds :: u32
  f_flow_root_pid :: u32

definition make_finding :: "edr_severity \<Rightarrow> rule_ref \<Rightarrow> string \<Rightarrow> edr_finding" where
  "make_finding severity rule_id reason = \<lparr>f_severity = severity, f_rule_id = rule_id,
     f_reason = reason, f_has_flow = False, f_flow_id = None, f_flow_score = 0,
     f_flow_reasons = None, f_flow_window_seconds = 0, f_flow_root_pid = 0\<rparr>"

definition make_controlled_finding ::
  "edr_rules \<Rightarrow> edr_severity \<Rightarrow> string \<Rightarrow> string \<Rightarrow> edr_finding option" where
  "make_controlled_finding r default_severity rule_id reason =
     (case rule_controls_allow r rule_id default_severity of
        None \<Rightarrow> None | Some severity \<Rightarrow> Some (make_finding severity (Rid_Lit rule_id) reason))"

definition event_name :: "u32 \<Rightarrow> string" where
  "event_name t =
     (if t = EDR_EVENT_EXEC then ''EXEC''
      else if t = EDR_EVENT_MPROTECT then ''MPROTECT''
      else if t = EDR_EVENT_MMAP then ''MMAP''
      else if t = EDR_EVENT_OPENAT then ''OPENAT''
      else if t = EDR_EVENT_CONNECT then ''CONNECT''
      else ''UNKNOWN'')"

section \<open>Scanning the rule tables\<close>

text \<open>
  The loop all scans share: from the last rule down, the first one whose value matches and whose id
  is not disabled gives the severity and the pointer to its id.
\<close>

definition scan_rules ::
  "edr_rules \<Rightarrow> ('v \<Rightarrow> bool) \<Rightarrow> (nat \<Rightarrow> rule_ref) \<Rightarrow> 'v rule_table \<Rightarrow> (edr_severity \<times> rule_ref) option" where
  "scan_rules r hit ref t =
     scan_down (\<lambda>idx.
       if hit (rt_values t ! idx)
       then (case rule_controls_allow r (rt_rule_ids t ! idx) (rt_severities t ! idx) of
               Some severity \<Rightarrow> Some (severity, ref idx) | None \<Rightarrow> None)
       else None) (rt_count t)"

definition contains_rule ::
  "edr_rules \<Rightarrow> string \<Rightarrow> (nat \<Rightarrow> rule_ref) \<Rightarrow> string rule_table \<Rightarrow> (edr_severity \<times> rule_ref) option" where
  "contains_rule r haystack ref t = scan_rules r (\<lambda>v. strstr haystack v) ref t"

definition comm_allowed_for_jit :: "edr_rules \<Rightarrow> string \<Rightarrow> bool" where
  "comm_allowed_for_jit r comm =
     (let t = ru_jit_allow_comm r
      in list_ex (\<lambda>v. strncmp_eq COMM_LEN comm v) (take (vt_count t) (vt_values t)))"

definition basename_ptr :: "string \<Rightarrow> string" where
  "basename_ptr path = (case split_last (CHR ''/'') path of None \<Rightarrow> path | Some (_, base) \<Rightarrow> base)"

definition is_suspicious_exec :: "edr_rules \<Rightarrow> string \<Rightarrow> (edr_severity \<times> rule_ref) option" where
  "is_suspicious_exec r target =
     (let base = basename_ptr target in
      case scan_rules r (\<lambda>v. base = v) Rid_Exec_Exact (ru_suspicious_exec_exact r) of
        Some hit \<Rightarrow> Some hit
      | None \<Rightarrow> scan_rules r (\<lambda>v. strncmp_eq (length v) base v) Rid_Exec_Prefix
                 (ru_suspicious_exec_prefix r))"

definition is_sensitive_read_file :: "edr_rules \<Rightarrow> string \<Rightarrow> (edr_severity \<times> rule_ref) option" where
  "is_sensitive_read_file r target = contains_rule r target Rid_Read (ru_sensitive_read r)"

definition is_sensitive_write_file :: "edr_rules \<Rightarrow> string \<Rightarrow> (edr_severity \<times> rule_ref) option" where
  "is_sensitive_write_file r target = contains_rule r target Rid_Write (ru_sensitive_write r)"

definition is_suspicious_port :: "edr_rules \<Rightarrow> u16 \<Rightarrow> (edr_severity \<times> rule_ref) option" where
  "is_suspicious_port r port = scan_rules r (\<lambda>v. v = port) Rid_Port (ru_suspicious_ports r)"

section \<open>Flag words\<close>

text \<open>The constants of \<open>fcntl.h\<close> and \<open>sys/mman.h\<close> on Linux.\<close>

definition O_ACCMODE :: u32 where "O_ACCMODE = 3"
definition O_WRONLY :: u32 where "O_WRONLY = 1"
definition O_RDWR :: u32 where "O_RDWR = 2"
definition O_CREAT :: u32 where "O_CREAT = 0x40"
definition O_TRUNC :: u32 where "O_TRUNC = 0x200"
definition PROT_WRITE :: u32 where "PROT_WRITE = 2"
definition PROT_EXEC :: u32 where "PROT_EXEC = 4"
definition MAP_ANONYMOUS :: u32 where "MAP_ANONYMOUS = 0x20"

lemmas flag_defs = O_ACCMODE_def O_WRONLY_def O_RDWR_def O_CREAT_def O_TRUNC_def PROT_WRITE_def
  PROT_EXEC_def MAP_ANONYMOUS_def

definition has_flag :: "u32 \<Rightarrow> u32 \<Rightarrow> bool" where
  "has_flag w f \<longleftrightarrow> and w f \<noteq> 0"

definition opens_for_write :: "u32 \<Rightarrow> bool" where
  "opens_for_write flags =
     (let access_mode = and flags O_ACCMODE in
      access_mode = O_WRONLY \<or> access_mode = O_RDWR \<or> has_flag flags O_TRUNC \<or>
      has_flag flags O_CREAT)"

section \<open>Scans as searches of the rows\<close>

text \<open>The rows a scan can report: those that match and are not disabled.\<close>

definition enabled_hits ::
  "edr_rules \<Rightarrow> ('v \<Rightarrow> bool) \<Rightarrow> 'v rule_table \<Rightarrow> ('v \<times> edr_severity \<times> string) list" where
  "enabled_hits r hit t = filter (\<lambda>(v, s, i). hit v \<and> \<not> rule_id_disabled r i) (rt_rows t)"

definition verdict_of ::
  "edr_rules \<Rightarrow> ('v \<times> edr_severity \<times> string) list \<Rightarrow> (edr_severity \<times> string) option" where
  "verdict_of r rows = (if rows = [] then None else
     (case last rows of (v, s, i) \<Rightarrow> Some (effective_rule_severity r i s, i)))"

text \<open>What a scan reports, with the pointer replaced by its text.\<close>

definition read_hit :: "edr_rules \<Rightarrow> (edr_severity \<times> rule_ref) option \<Rightarrow> (edr_severity \<times> string) option" where
  "read_hit r h = map_option (\<lambda>(s, ref). (s, rule_text r ref)) h"

lemma read_hit_simps [simp]:
  "read_hit r None = None" "read_hit r (Some (s, ref)) = Some (s, rule_text r ref)"
  by (simp_all add: read_hit_def)

lemma read_hit_None [simp]: "read_hit r h = None \<longleftrightarrow> h = None"
  by (simp add: read_hit_def)

text \<open>A scan of the first \<open>n\<close> slots, by induction on \<open>n\<close>.\<close>

lemma scan_down_rows:
  assumes "\<And>i. i < n \<Longrightarrow> f i = (if q (xs ! i) then Some (g (xs ! i), ref i) else None)"
    and "n \<le> length xs" and "\<And>i. i < n \<Longrightarrow> txt (ref i) = h (xs ! i)"
  shows "map_option (\<lambda>(s, r). (s, txt r)) (scan_down f n) =
    (let ys = filter q (take n xs)
     in if ys = [] then None else Some (g (last ys), h (last ys)))"
  using assms
proof (induction n)
  case (Suc n)
  have t: "take (Suc n) xs = take n xs @ [xs ! n]"
    using Suc.prems(2) by (simp add: take_Suc_conv_app_nth)
  have ih: "map_option (\<lambda>(s, r). (s, txt r)) (scan_down f n) =
    (let ys = filter q (take n xs)
     in if ys = [] then None else Some (g (last ys), h (last ys)))"
    using Suc by simp
  show ?case
  proof (cases "q (xs ! n)")
    case True
    then show ?thesis using Suc.prems(1) [of n] Suc.prems(3) [of n]
      by (simp add: t)
  next
    case False
    then show ?thesis using Suc.prems(1) [of n] ih by (simp add: t)
  qed
qed simp

lemma scan_rules_rows:
  assumes "rt_wf t" and "\<And>i. rule_text r (ref i) = rt_rule_ids t ! i"
  shows "read_hit r (scan_rules r hit ref t) = verdict_of r (enabled_hits r hit t)"
proof -
  have "read_hit r (scan_rules r hit ref t) =
    (let ys = filter (\<lambda>(v, s, i). hit v \<and> \<not> rule_id_disabled r i) (take (rt_count t) (rt_rows t))
     in if ys = [] then None
        else Some ((\<lambda>(v, s, i). effective_rule_severity r i s) (last ys), (\<lambda>(v, s, i). i) (last ys)))"
    unfolding read_hit_def scan_rules_def
    using assms length_rt_rows [OF assms(1)]
    by (intro scan_down_rows [where ref = ref])
      (simp_all add: nth_rt_rows rule_controls_allow_def)
  moreover have "take (rt_count t) (rt_rows t) = rt_rows t"
    using length_rt_rows [OF assms(1)] by simp
  ultimately show ?thesis
    by (simp add: verdict_of_def enabled_hits_def split: prod.split)
qed

text \<open>
  The severity a rule is written with: the severity column of its row for a rule of a table, and a
  table of literals for the memory and the flow rules.  An allow-listed transfer lowers the two flow
  rules about a missing terminal.  This is the specification of what the code passes to
  \<open>rule_controls_allow\<close> at each of its calls.
\<close>

definition literal_severities :: "edr_rules \<Rightarrow> bool \<Rightarrow> (string \<times> edr_severity) list" where
  "literal_severities r allowlisted =
     [(''mem.rwx_mprotect'', EDR_SEV_CRITICAL), (''mem.rwx_mmap'', EDR_SEV_CRITICAL),
      (''mem.exec_mprotect'', EDR_SEV_WARN), (''mem.anon_exec_mmap'', ru_anon_exec_mmap_severity r)] @
     (if allowlisted then [(''flow.no_tty_public_transfer_tool'', EDR_SEV_INFO),
                           (''flow.idle_public_transfer_tool'', EDR_SEV_INFO)] else []) @
     map (\<lambda>(i, s, score). (i, s)) (flow_defaults (ru_profile r))"

definition declared_severity :: "edr_rules \<Rightarrow> bool \<Rightarrow> rule_ref \<Rightarrow> edr_severity" where
  "declared_severity r allowlisted ref = (case ref of
     Rid_Lit i \<Rightarrow> the (map_of (literal_severities r allowlisted) i)
   | Rid_Exec_Exact k \<Rightarrow> rt_severities (ru_suspicious_exec_exact r) ! k
   | Rid_Exec_Prefix k \<Rightarrow> rt_severities (ru_suspicious_exec_prefix r) ! k
   | Rid_Read k \<Rightarrow> rt_severities (ru_sensitive_read r) ! k
   | Rid_Write k \<Rightarrow> rt_severities (ru_sensitive_write r) ! k
   | Rid_Port k \<Rightarrow> rt_severities (ru_suspicious_ports r) ! k)"

lemma declared_tables [simp]:
  "declared_severity r a (Rid_Exec_Exact k) = rt_severities (ru_suspicious_exec_exact r) ! k"
  "declared_severity r a (Rid_Exec_Prefix k) = rt_severities (ru_suspicious_exec_prefix r) ! k"
  "declared_severity r a (Rid_Read k) = rt_severities (ru_sensitive_read r) ! k"
  "declared_severity r a (Rid_Write k) = rt_severities (ru_sensitive_write r) ! k"
  "declared_severity r a (Rid_Port k) = rt_severities (ru_suspicious_ports r) ! k"
  by (simp_all add: declared_severity_def)

lemma declared_memory [simp]:
  "declared_severity r a (Rid_Lit ''mem.rwx_mprotect'') = EDR_SEV_CRITICAL"
  "declared_severity r a (Rid_Lit ''mem.rwx_mmap'') = EDR_SEV_CRITICAL"
  "declared_severity r a (Rid_Lit ''mem.exec_mprotect'') = EDR_SEV_WARN"
  "declared_severity r a (Rid_Lit ''mem.anon_exec_mmap'') = ru_anon_exec_mmap_severity r"
  by (simp_all add: declared_severity_def literal_severities_def)

lemma declared_flow:
  "declared_severity r a (Rid_Lit FLOW_RULE_SENSITIVE_READ_THEN_PUBLIC_NET) =
     default_flow_rule_severity r FLOW_RULE_SENSITIVE_READ_THEN_PUBLIC_NET"
  "declared_severity r a (Rid_Lit FLOW_RULE_SHELL_DOWNLOADER_PUBLIC_NET) =
     default_flow_rule_severity r FLOW_RULE_SHELL_DOWNLOADER_PUBLIC_NET"
  "declared_severity r a (Rid_Lit FLOW_RULE_IDLE_PUBLIC_TRANSFER_TOOL) =
     (if a then EDR_SEV_INFO else default_flow_rule_severity r FLOW_RULE_IDLE_PUBLIC_TRANSFER_TOOL)"
  "declared_severity r a (Rid_Lit FLOW_RULE_NO_TTY_PUBLIC_TRANSFER_TOOL) =
     (if a then EDR_SEV_INFO else default_flow_rule_severity r FLOW_RULE_NO_TTY_PUBLIC_TRANSFER_TOOL)"
  by (cases "ru_profile r"; simp add: declared_severity_def literal_severities_def flow_defaults_def
      default_flow_rule_severity_def flow_rule_names)+

text \<open>Reported rules are never disabled and carry the effective severity of their row.\<close>

lemma scan_rules_enabled:
  assumes "scan_rules r hit ref t = Some (s, x)"
  shows "\<exists>k < rt_count t. x = ref k \<and> \<not> rule_id_disabled r (rt_rule_ids t ! k) \<and>
    s = effective_rule_severity r (rt_rule_ids t ! k) (rt_severities t ! k)"
proof -
  obtain i where "i < rt_count t" and i: "(if hit (rt_values t ! i)
      then (case rule_controls_allow r (rt_rule_ids t ! i) (rt_severities t ! i) of
               Some severity \<Rightarrow> Some (severity, ref i) | None \<Rightarrow> None) else None) = Some (s, x)"
    using assms unfolding scan_rules_def scan_down_Some by blast
  then show ?thesis
    by (intro exI [of _ i]) (auto simp: rule_controls_allow_def split: if_splits)
qed

lemma scans_enabled:
  "is_suspicious_exec r target = Some (s, x) \<or> is_sensitive_read_file r target = Some (s, x) \<or>
   is_sensitive_write_file r target = Some (s, x) \<or> is_suspicious_port r port = Some (s, x) \<Longrightarrow>
   \<not> rule_id_disabled r (rule_text r x) \<and>
   s = effective_rule_severity r (rule_text r x) (declared_severity r a x)"
  by (auto simp: is_suspicious_exec_def is_sensitive_read_file_def is_sensitive_write_file_def
      is_suspicious_port_def contains_rule_def Let_def split: option.splits
      dest!: scan_rules_enabled)

lemma basename_no_slash: "CHR ''/'' \<notin> set (basename_ptr path)"
  by (auto simp: basename_ptr_def split_last_None split_last_Some split: option.splits)

lemma basename_after: "CHR ''/'' \<notin> set base \<Longrightarrow> basename_ptr (dir @ CHR ''/'' # base) = base"
  by (simp add: basename_ptr_def split_last_Some [THEN iffD2])

lemma verdict_of_Nil [simp]: "verdict_of r [] = None"
  by (simp add: verdict_of_def)

lemma verdict_of_None: "verdict_of r rows = None \<longleftrightarrow> rows = []"
  by (auto simp: verdict_of_def split: prod.splits)

lemma verdict_of_snoc [simp]: "verdict_of r (rows @ [(v, s, i)]) = Some (effective_rule_severity r i s, i)"
  by (simp add: verdict_of_def)

subsection \<open>Flags are bits\<close>

lemma possible_bit_u32: "possible_bit TYPE(u32) n \<longleftrightarrow> n < 32"
  by (simp add: possible_bit_def)

lemma has_flag_bit: "n < 32 \<Longrightarrow> has_flag flags (2 ^ n) \<longleftrightarrow> bit flags n"
  by (auto simp: has_flag_def bit_eq_iff [where ?'a = u32] bit_and_iff bit_exp_iff possible_bit_u32)

lemma mask_flag_bits:
  "has_flag w PROT_EXEC \<longleftrightarrow> bit w 2" "has_flag w PROT_WRITE \<longleftrightarrow> bit w 1"
  "has_flag w MAP_ANONYMOUS \<longleftrightarrow> bit w 5" "has_flag w O_TRUNC \<longleftrightarrow> bit w 9" "has_flag w O_CREAT \<longleftrightarrow> bit w 6"
  using has_flag_bit [of 2 w] has_flag_bit [of 1 w] has_flag_bit [of 5 w] has_flag_bit [of 9 w]
    has_flag_bit [of 6 w]
  by (simp_all add: flag_defs)

lemma comm_allowed_rows:
  assumes "length comm < COMM_LEN" and "\<forall>v \<in> set (vt_rows (ru_jit_allow_comm r)). length v < COMM_LEN"
  shows "comm_allowed_for_jit r comm \<longleftrightarrow> comm \<in> set (vt_rows (ru_jit_allow_comm r))"
proof -
  have "strncmp_eq COMM_LEN comm v \<longleftrightarrow> v = comm" if "v \<in> set (vt_rows (ru_jit_allow_comm r))" for v
    using assms that by (auto simp: strncmp_eq_def)
  then show ?thesis
    unfolding comm_allowed_for_jit_def Let_def list_ex_iff vt_rows_def [symmetric] by blast
qed

lemma is_suspicious_exec_rows:
  assumes "rules_wf r"
  shows "read_hit r (is_suspicious_exec r target) =
    (let exact = enabled_hits r (\<lambda>v. v = basename_ptr target) (ru_suspicious_exec_exact r);
         pre = enabled_hits r (\<lambda>v. prefix v (basename_ptr target)) (ru_suspicious_exec_prefix r)
     in verdict_of r (if exact \<noteq> [] then exact else pre))"
proof -
  have w: "rt_wf (ru_suspicious_exec_exact r)" "rt_wf (ru_suspicious_exec_prefix r)"
    using assms by (simp_all add: rules_wf_def)
  have e: "read_hit r (scan_rules r (\<lambda>v. basename_ptr target = v) Rid_Exec_Exact
      (ru_suspicious_exec_exact r)) =
    verdict_of r (enabled_hits r (\<lambda>v. v = basename_ptr target) (ru_suspicious_exec_exact r))"
    using scan_rules_rows [OF w(1), of r Rid_Exec_Exact "\<lambda>v. basename_ptr target = v"]
    by (simp add: eq_commute)
  have p: "read_hit r (scan_rules r (\<lambda>v. strncmp_eq (length v) (basename_ptr target) v)
      Rid_Exec_Prefix (ru_suspicious_exec_prefix r)) =
    verdict_of r (enabled_hits r (\<lambda>v. prefix v (basename_ptr target)) (ru_suspicious_exec_prefix r))"
    using scan_rules_rows [OF w(2), of r Rid_Exec_Prefix] by (simp add: strncmp_eq_prefix)
  show ?thesis
  proof (cases "scan_rules r (\<lambda>v. basename_ptr target = v) Rid_Exec_Exact (ru_suspicious_exec_exact r)")
    case None
    then show ?thesis
      using e p by (simp add: is_suspicious_exec_def Let_def verdict_of_None eq_commute [of None])
  next
    case (Some h)
    then have "verdict_of r (enabled_hits r (\<lambda>v. v = basename_ptr target)
        (ru_suspicious_exec_exact r)) \<noteq> None"
      using e [symmetric] by simp
    then show ?thesis using Some e by (simp add: is_suspicious_exec_def Let_def verdict_of_None)
  qed
qed

lemma table_scans_rows:
  assumes "rules_wf r"
  shows "read_hit r (is_sensitive_read_file r target) =
      verdict_of r (enabled_hits r (\<lambda>v. sublist v target) (ru_sensitive_read r))
    \<and> read_hit r (is_sensitive_write_file r target) =
      verdict_of r (enabled_hits r (\<lambda>v. sublist v target) (ru_sensitive_write r))
    \<and> read_hit r (is_suspicious_port r port) =
      verdict_of r (enabled_hits r (\<lambda>v. v = port) (ru_suspicious_ports r))"
  using assms
  by (simp add: is_sensitive_read_file_def is_sensitive_write_file_def is_suspicious_port_def
      contains_rule_def scan_rules_rows rules_wf_def strstr_def)

text \<open>Under the built-in policy a table reports its one severity and rule id on any hit.\<close>

lemma default_hits:
  assumes "rt_rows t = default_rows s i vs"
  shows "verdict_of init_default_rules (enabled_hits init_default_rules hit t) =
    (if \<exists>v \<in> set vs. hit v then Some (s, i) else None)"
proof -
  have rows: "enabled_hits init_default_rules hit t = map (\<lambda>v. (v, s, i)) (filter hit vs)"
    by (simp add: enabled_hits_def assms default_rows_def init_default_controls filter_map o_def)
  show ?thesis
  proof (cases "filter hit vs = []")
    case True
    then show ?thesis unfolding rows by (simp add: filter_empty_conv)
  next
    case False
    then have "\<exists>v \<in> set vs. hit v" by (simp add: filter_empty_conv)
    then show ?thesis
      using False unfolding rows
      by (simp add: verdict_of_def last_map effective_rule_severity_map [OF init_default_rules_wf]
          init_default_controls)
  qed
qed

lemma basename_last_component: "basename_ptr path = rev (takeWhile (\<lambda>c. c \<noteq> CHR ''/'') (rev path))"
proof (cases "split_last (CHR ''/'') path")
  case None
  then have "takeWhile (\<lambda>c. c \<noteq> CHR ''/'') (rev path) = rev path"
    by (auto simp: split_last_None takeWhile_eq_all_conv)
  then have "rev (takeWhile (\<lambda>c. c \<noteq> CHR ''/'') (rev path)) = path" by (simp only: rev_rev_ident)
  then show ?thesis using None by (simp add: basename_ptr_def)
next
  case (Some p)
  then obtain a b where p: "p = (a, b)" "path = a @ CHR ''/'' # b" "CHR ''/'' \<notin> set b"
    by (cases p) (simp add: split_last_Some)
  then have "takeWhile (\<lambda>c. c \<noteq> CHR ''/'') (rev b @ CHR ''/'' # rev a) = rev b"
    by (subst takeWhile_append2) auto
  then show ?thesis using Some p by (simp add: basename_ptr_def)
qed

section \<open>Properties\<close>

text \<open>
  C14.  Suspicious executions: the verdict depends on the base name alone.  The last enabled exact rule
  equal to it decides; only if there is none, the last enabled prefix rule that it starts with does.
  A disabled rule never hides an enabled one.
\<close>

theorem is_suspicious_exec_spec:
  assumes "rules_wf r"
  shows "read_hit r (is_suspicious_exec r target) =
    (let exact = enabled_hits r (\<lambda>v. v = basename_ptr target) (ru_suspicious_exec_exact r);
         pre = enabled_hits r (\<lambda>v. prefix v (basename_ptr target)) (ru_suspicious_exec_prefix r)
     in verdict_of r (if exact \<noteq> [] then exact else pre))"
  using assms by (rule is_suspicious_exec_rows)

theorem is_suspicious_exec_spec_witness:
  "read_hit init_default_rules (is_suspicious_exec init_default_rules ''/usr/bin/python3.11'') =
     Some (EDR_SEV_WARN, ''exec.suspicious_prefix'')"
proof -
  have b: "basename_ptr ''/usr/bin/python3.11'' = ''python3.11''"
    using basename_after [of "''python3.11''" "''/usr/bin''"] by simp
  have "enabled_hits init_default_rules (\<lambda>v. v = ''python3.11'')
      (ru_suspicious_exec_exact init_default_rules) = []"
    by (simp add: enabled_hits_def init_default_tables default_rows_def default_exec_exact_def)
  moreover have "enabled_hits init_default_rules (\<lambda>v. prefix v ''python3.11'')
      (ru_suspicious_exec_prefix init_default_rules) =
      [(''python'', EDR_SEV_WARN, ''exec.suspicious_prefix'')]"
    by (simp add: enabled_hits_def init_default_tables default_rows_def default_exec_prefix_def
        init_default_controls)
  ultimately show ?thesis
    using is_suspicious_exec_spec [OF init_default_rules_wf, of "''/usr/bin/python3.11''"]
    by (simp add: b Let_def verdict_of_def effective_rule_severity_map [OF init_default_rules_wf]
        init_default_controls)
qed

text \<open>
  C15.  Sensitive files and ports: a path is reported by the last enabled rule whose value occurs in it,
  a port by the last enabled rule with its number, each with the rule's effective severity.
\<close>

theorem table_scans_spec:
  assumes "rules_wf r"
  shows "read_hit r (is_sensitive_read_file r target) =
      verdict_of r (enabled_hits r (\<lambda>v. sublist v target) (ru_sensitive_read r))
    \<and> read_hit r (is_sensitive_write_file r target) =
      verdict_of r (enabled_hits r (\<lambda>v. sublist v target) (ru_sensitive_write r))
    \<and> read_hit r (is_suspicious_port r port) =
      verdict_of r (enabled_hits r (\<lambda>v. v = port) (ru_suspicious_ports r))"
  using assms by (rule table_scans_rows)

theorem table_scans_spec_witness:
  "read_hit init_default_rules (is_suspicious_port init_default_rules 4444) =
     Some (EDR_SEV_WARN, ''net.suspicious_port'')"
  using table_scans_spec [OF init_default_rules_wf, of "[]" 4444]
  by (simp add: enabled_hits_def init_default_tables default_rows_def init_default_controls
      verdict_of_def effective_rule_severity_map [OF init_default_rules_wf])

text \<open>
  Opening for write: the flag word asks for write access exactly when its two access bits differ
  (write-only or read-write) or it creates or truncates.
\<close>

lemma opens_for_write_bits:
  "opens_for_write flags \<longleftrightarrow> bit flags 0 \<noteq> bit flags 1 \<or> bit flags 6 \<or> bit flags 9"
proof -
  have mask: "(3 :: u32) = mask 2"
    by (simp add: mask_eq_exp_minus_1)
  have one: "and flags (mask 2) = (1 :: u32) \<longleftrightarrow> bit flags 0 \<and> \<not> bit flags 1"
    by (auto simp: bit_eq_iff [where ?'a = u32] bit_and_iff bit_mask_iff bit_1_iff possible_bit_u32 less_2_cases_iff
        dest: spec [of _ 0] spec [of _ "Suc 0"])
  have bit2: "bit (2 :: int) n \<longleftrightarrow> n = 1" for n
    using bit_exp_iff [where ?'a = int, of 1 n] by auto
  have rdwr: "and flags (mask 2) = (2 :: u32) \<longleftrightarrow> \<not> bit flags 0 \<and> bit flags 1"
    by (auto simp: bit_eq_iff [where ?'a = u32] bit_and_iff bit_mask_iff bit2 possible_bit_u32 less_2_cases_iff
        dest: spec [of _ 0] spec [of _ "Suc 0"])
  have "opens_for_write flags \<longleftrightarrow> and flags (mask 2) = 1 \<or> and flags (mask 2) = 2 \<or>
      has_flag flags O_TRUNC \<or> has_flag flags O_CREAT"
    by (simp add: opens_for_write_def Let_def O_ACCMODE_def O_WRONLY_def O_RDWR_def mask)
  then show ?thesis by (auto simp add: one rdwr mask_flag_bits)
qed

end
