(* ===== verification/ProcContext.thy ===== *)
theory ProcContext
  imports Common Telemetry RuleTables
begin

text \<open>
  Process enrichment (\<open>dev/host/asic_main.c\<close>): what \<open>enrich_process\<close> reads from \<open>/proc\<close>, the
  terminal and input devices for one process.  The operating system is a parameter, \<open>os_view\<close>: the
  contents of files, link targets, file times, directories, the clock.  One view is used for
  the handling of one event; successive events may see different views.
\<close>

section \<open>The operating system as seen\<close>

record stat_buf =
  st_dev :: u64
  st_ino :: u64
  st_mode :: u32
  st_uid :: u32
  st_gid :: u32
  st_mtime :: int
  st_atime :: int

text \<open>
  \<open>None\<close> is a failing \<open>fopen\<close>, \<open>readlink\<close>, \<open>stat\<close>, \<open>opendir\<close> or \<open>gethostname\<close>; \<open>os_ntop6\<close> is the
  C library's text of an IPv6 address.
\<close>

record os_view =
  os_file :: "string \<Rightarrow> string option"
  os_readlink :: "string \<Rightarrow> string option"
  os_stat :: "string \<Rightarrow> stat_buf option"
  os_listdir :: "string \<Rightarrow> string list option"
  os_time :: int
  os_localtime :: wall_clock
  os_hostname :: "string option"
  os_ntop6 :: "u8 list \<Rightarrow> string"

definition MAX_CMDLINE :: nat where [simp]: "MAX_CMDLINE = 512"
definition USER_IDLE_UNKNOWN_SECONDS :: u32 where "USER_IDLE_UNKNOWN_SECONDS = - 1"

record process_context =
  pc_ppid :: u32
  pc_gppid :: u32
  pc_parent_comm :: string
  pc_grandparent_comm :: string
  pc_exe :: string
  pc_cwd :: string
  pc_cmdline :: string
  pc_exe_dev :: u64
  pc_exe_inode :: u64
  pc_exe_mode :: u32
  pc_exe_uid :: u32
  pc_exe_gid :: u32
  pc_exe_mtime :: int
  pc_exe_deleted :: bool
  pc_exe_writable_path :: bool
  pc_has_tty :: bool
  pc_interactive_session :: bool
  pc_user_idle_seconds :: u32
  pc_session_uid :: u32
  pc_session_id :: string
  pc_user_presence_source :: string

definition zero_context :: process_context where
  "zero_context = \<lparr>pc_ppid = 0, pc_gppid = 0, pc_parent_comm = [], pc_grandparent_comm = [],
     pc_exe = [], pc_cwd = [], pc_cmdline = [], pc_exe_dev = 0, pc_exe_inode = 0, pc_exe_mode = 0,
     pc_exe_uid = 0, pc_exe_gid = 0, pc_exe_mtime = 0, pc_exe_deleted = False,
     pc_exe_writable_path = False, pc_has_tty = False, pc_interactive_session = False,
     pc_user_idle_seconds = 0, pc_session_uid = 0, pc_session_id = [],
     pc_user_presence_source = []\<rparr>"

section \<open>Reading single values\<close>

definition trim_newline :: "string \<Rightarrow> string" where
  "trim_newline value = rstrip (\<lambda>c. c = CHR 0x0A \<or> c = CHR 0x0D) value"

definition strip_newline :: "string \<Rightarrow> string" where
  "strip_newline value = takeWhile (\<lambda>c. c \<noteq> CHR 0x0D \<and> c \<noteq> CHR 0x0A) value"

definition read_first_line_file :: "os_view \<Rightarrow> string \<Rightarrow> nat \<Rightarrow> string option" where
  "read_first_line_file os path out_size =
     (case os_file os path of
        None \<Rightarrow> None
      | Some content \<Rightarrow>
          (case fgets out_size content of
             None \<Rightarrow> None
           | Some (l, _) \<Rightarrow>
               (let out = trim_newline (cstr l) in if out = [] then None else Some out)))"

text \<open>\<open>snprintf(path, sizeof(path), "/proc/%u/<name>", pid)\<close>.\<close>

definition proc_path :: "u32 \<Rightarrow> string \<Rightarrow> string" where
  "proc_path pid name = snprintf_s 64 (''/proc/'' @ fmt_u (unat pid) @ ''/'' @ name)"

definition read_proc_link :: "os_view \<Rightarrow> u32 \<Rightarrow> string \<Rightarrow> nat \<Rightarrow> string" where
  "read_proc_link os pid name dst_size =
     (case os_readlink os (proc_path pid name) of
        None \<Rightarrow> [] | Some t \<Rightarrow> cstr (take (dst_size - 1) t))"

definition has_deleted_suffix :: "string \<Rightarrow> bool" where
  "has_deleted_suffix path =
     (let suffix = '' (deleted)'' in
      length suffix \<le> length path \<and> drop (length path - length suffix) path = suffix)"

definition has_path_prefix :: "string \<Rightarrow> string \<Rightarrow> bool" where
  "has_path_prefix path pre = strncmp_eq (length pre) path pre"

definition is_writable_exe_path :: "string \<Rightarrow> bool" where
  "is_writable_exe_path path \<longleftrightarrow>
     has_path_prefix path ''/tmp/'' \<or> has_path_prefix path ''/var/tmp/'' \<or>
     has_path_prefix path ''/dev/shm/'' \<or> has_path_prefix path ''/home/''"

definition read_proc_exe_metadata :: "os_view \<Rightarrow> u32 \<Rightarrow> process_context \<Rightarrow> process_context" where
  "read_proc_exe_metadata os pid proc =
     (case os_stat os (proc_path pid ''exe'') of
        None \<Rightarrow> proc
      | Some st \<Rightarrow> proc\<lparr>pc_exe_dev := st_dev st, pc_exe_inode := st_ino st,
          pc_exe_mode := st_mode st, pc_exe_uid := st_uid st, pc_exe_gid := st_gid st,
          pc_exe_mtime := st_mtime st\<rparr>)"

definition read_proc_comm :: "os_view \<Rightarrow> u32 \<Rightarrow> nat \<Rightarrow> string" where
  "read_proc_comm os pid dst_size =
     (case os_file os (proc_path pid ''comm'') of
        None \<Rightarrow> []
      | Some content \<Rightarrow>
          (case fgets dst_size content of
             None \<Rightarrow> [] | Some (l, _) \<Rightarrow> strip_newline (cstr l)))"

text \<open>
  The conversions of \<open>sscanf\<close> the code uses: \<open>%u\<close> and \<open>%d\<close> skip white space and need a digit;
  \<open>%c\<close> takes one character; a blank in the format skips white space.
\<close>

definition scan_u :: "string \<Rightarrow> (u32 \<times> string) option" where
  "scan_u s = (case strtoul s of (v, _, rest) \<Rightarrow>
     if length rest < length s then Some (ucast v, rest) else None)"

definition clamp_long :: "int \<Rightarrow> int" where
  "clamp_long i = max (- (2 ^ 63)) (min (2 ^ 63 - 1) i)"

definition scan_d :: "string \<Rightarrow> (int \<times> string) option" where
  "scan_d s =
     (let (sg, t) = take_sign (dropWhile is_space s);
          ds = takeWhile is_digit t;
          v = (case sg of Plus \<Rightarrow> int (dec_value ds) | Minus \<Rightarrow> - int (dec_value ds))
      in if ds = [] then None
         else Some (sint (word_of_int (clamp_long v) :: u32), dropWhile is_digit t))"

definition scan_c :: "string \<Rightarrow> (char \<times> string) option" where
  "scan_c s = (case s of [] \<Rightarrow> None | c # cs \<Rightarrow> Some (c, cs))"

text \<open>\<open>sscanf(line, "PPid:\t%u", &ppid)\<close>.\<close>

definition scan_ppid :: "string \<Rightarrow> u32 option" where
  "scan_ppid line =
     (if prefix ''PPid:'' line
      then map_option fst (scan_u (dropWhile is_space (drop 5 line))) else None)"

fun first_ppid :: "string list \<Rightarrow> u32" where
  "first_ppid [] = 0"
| "first_ppid (l # ls) = (case scan_ppid (cstr l) of Some p \<Rightarrow> p | None \<Rightarrow> first_ppid ls)"

definition read_proc_ppid :: "os_view \<Rightarrow> u32 \<Rightarrow> u32" where
  "read_proc_ppid os pid =
     (case os_file os (proc_path pid ''status'') of
        None \<Rightarrow> 0 | Some content \<Rightarrow> first_ppid (fgets_lines 256 content))"

text \<open>\<open>sscanf(comm_end + 1, " %c %u %u %u %d", ...) == 5\<close>, of which the last value is used.\<close>

definition scan_stat_tail :: "string \<Rightarrow> int option" where
  "scan_stat_tail s =
     Option.bind (scan_c (dropWhile is_space s)) (\<lambda>(_, s).
     Option.bind (scan_u (dropWhile is_space s)) (\<lambda>(_, s).
     Option.bind (scan_u (dropWhile is_space s)) (\<lambda>(_, s).
     Option.bind (scan_u (dropWhile is_space s)) (\<lambda>(_, s).
     map_option fst (scan_d (dropWhile is_space s))))))"

definition read_proc_tty_nr :: "os_view \<Rightarrow> u32 \<Rightarrow> int option" where
  "read_proc_tty_nr os pid =
     (case os_file os (proc_path pid ''stat'') of
        None \<Rightarrow> None
      | Some content \<Rightarrow>
          (case fgets 1024 content of
             None \<Rightarrow> None
           | Some (line, _) \<Rightarrow>
               (case split_last (CHR '')'') (cstr line) of
                  None \<Rightarrow> None | Some (_, rest) \<Rightarrow> scan_stat_tail rest)))"

definition read_proc_session_id :: "os_view \<Rightarrow> u32 \<Rightarrow> nat \<Rightarrow> string option" where
  "read_proc_session_id os pid dst_size =
     read_first_line_file os (proc_path pid ''sessionid'') dst_size"

definition read_proc_loginuid :: "os_view \<Rightarrow> u32 \<Rightarrow> u32 \<Rightarrow> u32" where
  "read_proc_loginuid os pid fallback_uid =
     (case read_first_line_file os (proc_path pid ''loginuid'') 64 of
        None \<Rightarrow> fallback_uid
      | Some value \<Rightarrow>
          (case parse_u64 value of
             None \<Rightarrow> fallback_uid
           | Some parsed \<Rightarrow>
               if 4294967295 < parsed \<or> parsed = 4294967295 then fallback_uid else ucast parsed))"

section \<open>User presence\<close>

text \<open>Times are 64-bit and far from their limits, so their differences are taken on integers.\<close>

definition latest_access :: "stat_buf \<Rightarrow> int" where
  "latest_access st = (if st_atime st < st_mtime st then st_mtime st else st_atime st)"

definition idle_seconds_from_stat :: "stat_buf \<Rightarrow> int \<Rightarrow> u32" where
  "idle_seconds_from_stat st now =
     (let latest = latest_access st in
      if latest \<le> 0 \<or> now \<le> latest then 0
      else let delta = now - latest in
        if 4294967295 < delta then 4294967295 else word_of_int delta)"

definition is_tty_target :: "string \<Rightarrow> bool" where
  "is_tty_target target \<longleftrightarrow> has_path_prefix target ''/dev/tty'' \<or>
     has_path_prefix target ''/dev/pts/'' \<or> target = ''/dev/console''"

text \<open>The link of \<open>/proc/<pid>/fd/<fd>\<close>, read into a \<open>char[256]\<close>.\<close>

definition fd_link :: "os_view \<Rightarrow> u32 \<Rightarrow> nat \<Rightarrow> string option" where
  "fd_link os pid fd =
     map_option (\<lambda>t. cstr (take (EDR_MAX_TARGET - 1) t))
       (os_readlink os (proc_path pid (''fd/'' @ fmt_u fd)))"

fun tty_idle_loop :: "os_view \<Rightarrow> u32 \<Rightarrow> nat list \<Rightarrow> u32 option" where
  "tty_idle_loop os pid [] = None"
| "tty_idle_loop os pid (fd # fds) =
     (case fd_link os pid fd of
        None \<Rightarrow> tty_idle_loop os pid fds
      | Some target \<Rightarrow>
          if \<not> is_tty_target target then tty_idle_loop os pid fds
          else (case os_stat os target of
                  Some st \<Rightarrow> Some (idle_seconds_from_stat st (os_time os))
                | None \<Rightarrow> tty_idle_loop os pid fds))"

definition tty_idle_seconds :: "os_view \<Rightarrow> u32 \<Rightarrow> u32 option" where
  "tty_idle_seconds os pid = tty_idle_loop os pid [0, 1, 2]"

text \<open>The newest access among the event devices; \<open>None\<close> while none was seen.\<close>

fun latest_input :: "os_view \<Rightarrow> string list \<Rightarrow> int option \<Rightarrow> int option" where
  "latest_input os [] latest = latest"
| "latest_input os (d_name # rest) latest =
     (if \<not> strncmp_eq 5 d_name ''event'' then latest_input os rest latest
      else case os_stat os (snprintf_s 512 (''/dev/input/'' @ d_name)) of
        None \<Rightarrow> latest_input os rest latest
      | Some st \<Rightarrow>
          (let candidate = latest_access st in
           latest_input os rest
             (case latest of
                None \<Rightarrow> Some candidate
              | Some l \<Rightarrow> if l < candidate then Some candidate else Some l)))"

definition input_idle_seconds :: "os_view \<Rightarrow> u32 option" where
  "input_idle_seconds os =
     (case os_listdir os ''/dev/input'' of
        None \<Rightarrow> None
      | Some entries \<Rightarrow>
          (case latest_input os entries None of
             None \<Rightarrow> None
           | Some latest \<Rightarrow>
               (let now = os_time os in
                Some (if now \<le> latest then 0
                      else if 4294967295 < now - latest then 4294967295
                      else word_of_int (now - latest)))))"

definition enrich_user_presence ::
  "os_view \<Rightarrow> u32 \<Rightarrow> u32 \<Rightarrow> process_context \<Rightarrow> process_context" where
  "enrich_user_presence os pid uid proc =
     (let proc = proc\<lparr>pc_session_uid := read_proc_loginuid os pid uid,
                      pc_session_id := (case read_proc_session_id os pid 64 of
                          Some s \<Rightarrow> s | None \<Rightarrow> snprintf_s 64 ''unknown''),
                      pc_user_idle_seconds := USER_IDLE_UNKNOWN_SECONDS,
                      pc_user_presence_source := snprintf_s 32 ''unknown''\<rparr>
      in case tty_idle_seconds os pid of
           Some idle \<Rightarrow> proc\<lparr>pc_user_idle_seconds := idle,
             pc_user_presence_source := snprintf_s 32 ''tty''\<rparr>
         | None \<Rightarrow>
             (case input_idle_seconds os of
                Some idle \<Rightarrow> proc\<lparr>pc_user_idle_seconds := idle,
                  pc_user_presence_source := snprintf_s 32 ''input''\<rparr>
              | None \<Rightarrow> proc))"

section \<open>The whole context\<close>

definition fd_link_is_tty :: "os_view \<Rightarrow> u32 \<Rightarrow> nat \<Rightarrow> bool" where
  "fd_link_is_tty os pid fd =
     (case fd_link os pid fd of None \<Rightarrow> False | Some target \<Rightarrow> is_tty_target target)"

definition process_has_tty :: "os_view \<Rightarrow> u32 \<Rightarrow> bool" where
  "process_has_tty os pid \<longleftrightarrow>
     (case read_proc_tty_nr os pid of Some tty_nr \<Rightarrow> 0 < tty_nr | None \<Rightarrow> False) \<or>
     fd_link_is_tty os pid 0 \<or> fd_link_is_tty os pid 1 \<or> fd_link_is_tty os pid 2"

definition read_proc_cmdline :: "os_view \<Rightarrow> u32 \<Rightarrow> nat \<Rightarrow> string" where
  "read_proc_cmdline os pid dst_size =
     (case os_file os (proc_path pid ''cmdline'') of
        None \<Rightarrow> []
      | Some content \<Rightarrow>
          rstrip (\<lambda>c. c = CHR '' '')
            (map (\<lambda>c. if c = NUL then CHR '' '' else c) (take (dst_size - 1) content)))"

definition enrich_process :: "os_view \<Rightarrow> u32 \<Rightarrow> u32 \<Rightarrow> process_context" where
  "enrich_process os pid uid =
     (let proc = zero_context;
          proc = proc\<lparr>pc_ppid := read_proc_ppid os pid\<rparr>;
          proc = proc\<lparr>pc_gppid := read_proc_ppid os (pc_ppid proc)\<rparr>;
          proc = proc\<lparr>pc_parent_comm := read_proc_comm os (pc_ppid proc) COMM_LEN\<rparr>;
          proc = proc\<lparr>pc_grandparent_comm := read_proc_comm os (pc_gppid proc) COMM_LEN\<rparr>;
          proc = proc\<lparr>pc_has_tty := process_has_tty os pid\<rparr>;
          proc = proc\<lparr>pc_interactive_session := pc_has_tty proc\<rparr>;
          proc = enrich_user_presence os pid uid proc;
          proc = proc\<lparr>pc_exe := read_proc_link os pid ''exe'' EDR_MAX_TARGET\<rparr>;
          proc = proc\<lparr>pc_exe_deleted := has_deleted_suffix (pc_exe proc)\<rparr>;
          proc = proc\<lparr>pc_exe_writable_path := is_writable_exe_path (pc_exe proc)\<rparr>;
          proc = read_proc_exe_metadata os pid proc;
          proc = proc\<lparr>pc_cwd := read_proc_link os pid ''cwd'' EDR_MAX_TARGET\<rparr>
      in proc\<lparr>pc_cmdline := read_proc_cmdline os pid MAX_CMDLINE\<rparr>)"

section \<open>Well-formed contexts\<close>

text \<open>Every text of the context is a C string that fits its array.\<close>

abbreviation fits :: "nat \<Rightarrow> string \<Rightarrow> bool" where
  "fits n s \<equiv> is_cstr s \<and> length s < n"

definition wf_context :: "process_context \<Rightarrow> bool" where
  "wf_context p \<longleftrightarrow> fits COMM_LEN (pc_parent_comm p) \<and> fits COMM_LEN (pc_grandparent_comm p) \<and>
     fits EDR_MAX_TARGET (pc_exe p) \<and> fits EDR_MAX_TARGET (pc_cwd p) \<and>
     fits MAX_CMDLINE (pc_cmdline p) \<and> fits 64 (pc_session_id p) \<and>
     fits 32 (pc_user_presence_source p)"

lemma cstr_length: "length (cstr s) \<le> length s"
  by (simp add: cstr_def length_takeWhile_le)

lemma is_cstr_prefix: "is_cstr s \<Longrightarrow> prefix p s \<Longrightarrow> is_cstr p"
  by (auto simp: is_cstr_def dest: set_mono_prefix)

lemma fits_cstr_take: "0 < n \<Longrightarrow> fits n (cstr (take (n - 1) s))"
  using cstr_length [of "take (n - 1) s"] by (simp add: min_def split: if_splits)

lemma fits_prefix: "fits n s \<Longrightarrow> prefix p s \<Longrightarrow> fits n p"
  using is_cstr_prefix prefix_length_le by fastforce

lemma fits_cstr_fgets: "fgets n content = Some (l, r) \<Longrightarrow> fits n (cstr l)"
  using fgets_SomeD(3) [of n content l r] cstr_length [of l] by simp

lemma fits_Nil: "0 < n \<Longrightarrow> fits n []"
  by (simp add: is_cstr_def)

lemma fits_first_line:
  assumes "read_first_line_file os path n = Some v"
  shows "fits n v"
proof -
  obtain l r content where "fgets n content = Some (l, r)" and v: "v = trim_newline (cstr l)"
    using assms by (auto simp: read_first_line_file_def Let_def split: option.splits if_splits)
  then have "fits n (cstr l)" by (simp only: fits_cstr_fgets)
  then show ?thesis unfolding v trim_newline_def by (rule fits_prefix) (rule rstrip_prefix)
qed

lemma fits_read_proc_link:
  assumes "0 < n"
  shows "fits n (read_proc_link os pid name n)"
proof (cases "os_readlink os (proc_path pid name)")
  case (Some t)
  then show ?thesis using fits_cstr_take [OF assms, of t] by (simp add: read_proc_link_def)
qed (simp add: read_proc_link_def fits_Nil assms)

lemma fits_read_proc_comm:
  assumes "0 < n"
  shows "fits n (read_proc_comm os pid n)"
proof (cases "os_file os (proc_path pid ''comm'')")
  case (Some content)
  show ?thesis
  proof (cases "fgets n content")
    case None
    then show ?thesis using Some assms by (simp add: read_proc_comm_def fits_Nil)
  next
    case (Some p)
    then obtain l r where lr: "fgets n content = Some (l, r)" by (cases p) auto
    then have "fits n (cstr l)" by (rule fits_cstr_fgets)
    then have "fits n (strip_newline (cstr l))"
      unfolding strip_newline_def by (rule fits_prefix) (rule takeWhile_is_prefix)
    then show ?thesis using lr \<open>os_file os _ = Some content\<close> by (simp add: read_proc_comm_def)
  qed
qed (simp add: read_proc_comm_def fits_Nil assms)

lemma fits_read_proc_cmdline: "0 < n \<Longrightarrow> fits n (read_proc_cmdline os pid n)"
proof (cases "os_file os (proc_path pid ''cmdline'')")
  case (Some content)
  let ?m = "map (\<lambda>c. if c = NUL then CHR '' '' else c) (take (n - 1) content)"
  assume "0 < n"
  then have "fits n ?m" by (auto simp: is_cstr_def)
  then have "fits n (rstrip (\<lambda>c. c = CHR '' '') ?m)" using rstrip_prefix fits_prefix by blast
  then show ?thesis using Some by (simp add: read_proc_cmdline_def)
qed (simp add: read_proc_cmdline_def is_cstr_def)

lemmas fits_reads = fits_read_proc_link fits_read_proc_comm fits_read_proc_cmdline fits_first_line

lemma presence_fields:
  "pc_parent_comm (enrich_user_presence os pid uid p) = pc_parent_comm p"
  "pc_grandparent_comm (enrich_user_presence os pid uid p) = pc_grandparent_comm p"
  "pc_has_tty (enrich_user_presence os pid uid p) = pc_has_tty p"
  "pc_interactive_session (enrich_user_presence os pid uid p) = pc_interactive_session p"
  "pc_ppid (enrich_user_presence os pid uid p) = pc_ppid p"
  "pc_gppid (enrich_user_presence os pid uid p) = pc_gppid p"
  by (simp_all add: enrich_user_presence_def Let_def split: option.split)

lemma presence_source:
  "pc_user_presence_source (enrich_user_presence os pid uid p) =
     (if tty_idle_seconds os pid \<noteq> None then ''tty''
      else if input_idle_seconds os \<noteq> None then ''input'' else ''unknown'')"
  "pc_user_idle_seconds (enrich_user_presence os pid uid p) =
     (case tty_idle_seconds os pid of Some i \<Rightarrow> i
      | None \<Rightarrow> (case input_idle_seconds os of Some i \<Rightarrow> i | None \<Rightarrow> - 1))"
  by (auto simp: enrich_user_presence_def Let_def snprintf_s_def USER_IDLE_UNKNOWN_SECONDS_def
      split: option.split)

lemma presence_session_id: "fits 64 (pc_session_id (enrich_user_presence os pid uid p))"
proof -
  have "pc_session_id (enrich_user_presence os pid uid p) =
     (case read_proc_session_id os pid 64 of Some s \<Rightarrow> s | None \<Rightarrow> ''unknown'')"
    by (simp add: enrich_user_presence_def Let_def snprintf_s_def split: option.split)
  then show ?thesis
    using fits_first_line [of os "proc_path pid ''sessionid''" 64]
    by (cases "read_proc_session_id os pid 64") (auto simp: read_proc_session_id_def is_cstr_def)
qed

lemma exe_metadata_fields:
  "pc_parent_comm (read_proc_exe_metadata os pid p) = pc_parent_comm p"
  "pc_grandparent_comm (read_proc_exe_metadata os pid p) = pc_grandparent_comm p"
  "pc_exe (read_proc_exe_metadata os pid p) = pc_exe p"
  "pc_session_id (read_proc_exe_metadata os pid p) = pc_session_id p"
  "pc_user_presence_source (read_proc_exe_metadata os pid p) = pc_user_presence_source p"
  "pc_user_idle_seconds (read_proc_exe_metadata os pid p) = pc_user_idle_seconds p"
  "pc_has_tty (read_proc_exe_metadata os pid p) = pc_has_tty p"
  "pc_interactive_session (read_proc_exe_metadata os pid p) = pc_interactive_session p"
  "pc_ppid (read_proc_exe_metadata os pid p) = pc_ppid p"
  "pc_gppid (read_proc_exe_metadata os pid p) = pc_gppid p"
  "pc_exe_deleted (read_proc_exe_metadata os pid p) = pc_exe_deleted p"
  by (simp_all add: read_proc_exe_metadata_def split: option.split)

lemmas enrich_fields = enrich_process_def Let_def presence_fields presence_source
  exe_metadata_fields zero_context_def

lemma wf_enrich_process: "wf_context (enrich_process os pid uid)"
  using fits_reads(1) [of EDR_MAX_TARGET os pid] fits_reads(2) [of COMM_LEN os]
    fits_reads(3) [of MAX_CMDLINE os pid]
  by (simp add: wf_context_def enrich_fields presence_session_id)

section \<open>Reading the process status line\<close>

lemma digits_then:
  assumes "\<not> is_digit c"
  shows "takeWhile is_digit (fmt_u n @ c # r) = fmt_u n"
    and "dropWhile is_digit (fmt_u n @ c # r) = c # r"
  using assms fmt_u_digits by (simp_all add: takeWhile_append2 dropWhile_append2)

lemma hd_skips:
  assumes "s \<noteq> []" and "\<not> is_space (hd s)"
  shows "dropWhile is_space (s @ r) = s @ r"
  using assms by (cases s) auto

lemma fmt_u_skip: "dropWhile is_space (fmt_u n @ r) = fmt_u n @ r"
  by (rule hd_skips) (simp_all add: digit_not_space hd_fmt_u)

lemma fmt_u_no_sign: "take_sign (fmt_u n @ r) = (Plus, fmt_u n @ r)"
  using hd_fmt_u [of n] by (intro take_sign_digit) simp_all

lemma scan_u_number:
  assumes "\<not> is_digit c"
  shows "scan_u (fmt_u n @ c # r) =
    Some (ucast (if 2 ^ 64 \<le> n then - 1 else of_nat n :: u64), c # r)"
proof -
  have "strtoul (fmt_u n @ c # r) = (if 2 ^ 64 \<le> n then (- 1, True, c # r)
      else (of_nat n, False, c # r))"
    by (simp add: strtoul_def Let_def fmt_u_skip fmt_u_no_sign digits_then [OF assms])
  then show ?thesis by (simp add: scan_u_def)
qed

lemma scan_d_number:
  assumes "\<not> is_digit c" and "- (2 ^ 31) \<le> i" and "i < 2 ^ 31"
  shows "scan_d (fmt_d i @ c # r) = Some (i, c # r)"
proof -
  have v: "sint (word_of_int (clamp_long i) :: u32) = i"
    using assms(2,3) by (simp add: clamp_long_def signed_of_int signed_take_bit_int_eq_self)
  show ?thesis
  proof (cases "i < 0")
    case True
    have "dropWhile is_space (fmt_d i @ c # r) = CHR ''-'' # fmt_u (nat (- i)) @ c # r"
      using True by (simp add: fmt_d_def is_space_def)
    then show ?thesis using True v
      by (simp add: scan_d_def take_sign_def digits_then [OF assms(1)])
  next
    case False
    then show ?thesis using v
      by (simp add: scan_d_def fmt_d_def fmt_u_skip fmt_u_no_sign digits_then [OF assms(1)])
  qed
qed

lemma skip_blank: "dropWhile is_space (CHR '' '' # s) = dropWhile is_space s"
  by (simp add: is_space_def)

lemma hd_fmt_d: "fmt_d i \<noteq> []" "\<not> is_space (hd (fmt_d i))"
  using hd_fmt_u digit_not_space by (auto simp: fmt_d_def is_space_def)

lemma fmt_d_skip: "dropWhile is_space (fmt_d i @ r) = fmt_d i @ r"
  by (rule hd_skips) (simp_all only: hd_fmt_d not_False_eq_True)

text \<open>The part of \<open>/proc/<pid>/stat\<close> behind the command name.\<close>

definition stat_fields :: "char \<Rightarrow> nat \<Rightarrow> nat \<Rightarrow> nat \<Rightarrow> int \<Rightarrow> string \<Rightarrow> string" where
  "stat_fields st ppid pgrp session tty_nr rest =
     CHR '' '' # st # CHR '' '' # fmt_u ppid @ CHR '' '' # fmt_u pgrp @ CHR '' '' #
     fmt_u session @ CHR '' '' # fmt_d tty_nr @ CHR '' '' # rest"

lemma scan_stat_fields:
  assumes "\<not> is_space st" and "- (2 ^ 31) \<le> tty_nr" and "tty_nr < 2 ^ 31"
  shows "scan_stat_tail (stat_fields st a b c tty_nr rest) = Some tty_nr"
proof -
  have bl: "\<not> is_digit (CHR '' '')" by (simp add: is_digit_def)
  have st: "dropWhile is_space (st # s) = st # s" for s using assms(1) by simp
  show ?thesis
    unfolding stat_fields_def scan_stat_tail_def
    by (simp only: skip_blank st scan_c_def list.case bind.simps split fmt_u_skip scan_u_number [OF bl]
        fmt_d_skip scan_d_number [OF bl assms(2,3)] option.map fst_conv)
qed

definition stat_line :: "nat \<Rightarrow> string \<Rightarrow> string \<Rightarrow> string" where
  "stat_line pid comm fs = fmt_u pid @ CHR '' '' # CHR ''('' # comm @ CHR '')'' # fs"

lemma read_proc_tty_nr_stat:
  assumes st: "os_file os (proc_path pid ''stat'') = Some (stat_line n comm fs @ [newline])"
    and plain: "is_cstr comm" "newline \<notin> set comm" "is_cstr fs" "newline \<notin> set fs"
    and paren: "CHR '')'' \<notin> set fs"
    and len: "length (stat_line n comm fs) < 1023"
  shows "read_proc_tty_nr os pid = scan_stat_tail (fs @ [newline])"
proof -
  have dig: "c \<noteq> NUL \<and> c \<noteq> newline" if "c \<in> set (fmt_u n)" for c
    using fmt_u_digits [OF that] by (auto simp: is_digit_def)
  have nl: "newline \<notin> set (stat_line n comm fs)"
    using plain dig [of newline] by (auto simp: stat_line_def)
  have cs: "is_cstr (stat_line n comm fs @ [newline])"
    using plain dig [of NUL] by (auto simp: stat_line_def is_cstr_def)
  have "fgets 1024 (stat_line n comm fs @ [newline]) = Some (stat_line n comm fs @ [newline], [])"
    using fgets_line [OF nl, of 1024 "[]"] len by simp
  moreover have "split_last (CHR '')'') (stat_line n comm fs @ [newline]) =
      Some (fmt_u n @ CHR '' '' # CHR ''('' # comm, fs @ [newline])"
    using paren by (simp add: split_last_Some stat_line_def)
  ultimately show ?thesis using st by (simp add: read_proc_tty_nr_def cstr_idem [OF cs])
qed

section \<open>Properties\<close>

lemma suffix_drop_iff: "suffix x y \<longleftrightarrow> length x \<le> length y \<and> drop (length y - length x) y = x"
proof
  assume *: "length x \<le> length y \<and> drop (length y - length x) y = x"
  then have "y = take (length y - length x) y @ x"
    by (metis append_take_drop_id)
  then show "suffix x y" by (metis suffix_def)
qed (auto simp: suffix_def)

lemma idle_seconds_latest:
  "uint (idle_seconds_from_stat st now) =
     (if latest_access st \<le> 0 then 0 else min (2 ^ 32 - 1) (max 0 (now - latest_access st)))"
proof -
  have "uint (word_of_int d :: u32) = d" if "0 \<le> d" "d < 2 ^ 32" for d
    using that by (simp add: unsigned_of_int take_bit_int_eq_self)
  then show ?thesis
    unfolding idle_seconds_from_stat_def Let_def
    by (cases "latest_access st \<le> 0"; cases "now \<le> latest_access st";
        cases "4294967295 < now - latest_access st") (simp_all del: of_int_diff)
qed

text \<open>
  C28.  The process context: whatever \<open>/proc\<close> holds, every text of the context is NUL-free and fits its
  array; the session counts as interactive exactly when it has a terminal; the executable counts
  as deleted exactly when its link ends in \<open> (deleted)\<close>; and the presence source tells where the
  idle time is from: the terminal if it could be read, else the input devices, else nowhere, in
  which case the idle time is the unknown value.
\<close>

theorem enrich_process_sound:
  fixes os :: os_view and pid uid :: u32
  defines "p \<equiv> enrich_process os pid uid"
  shows "wf_context p
    \<and> pc_has_tty p = process_has_tty os pid \<and> pc_interactive_session p = process_has_tty os pid
    \<and> pc_exe_deleted p = suffix '' (deleted)'' (pc_exe p)
    \<and> (pc_user_presence_source p, pc_user_idle_seconds p) =
        (case (tty_idle_seconds os pid, input_idle_seconds os) of
           (Some i, _) \<Rightarrow> (''tty'', i)
         | (None, Some i) \<Rightarrow> (''input'', i)
         | (None, None) \<Rightarrow> (''unknown'', USER_IDLE_UNKNOWN_SECONDS))"
proof -
  have "has_deleted_suffix path = suffix '' (deleted)'' path" for path
    by (simp add: has_deleted_suffix_def Let_def suffix_drop_iff)
  then show ?thesis
    unfolding p_def
    by (intro conjI wf_enrich_process)
      (simp_all add: enrich_fields USER_IDLE_UNKNOWN_SECONDS_def split: option.split)
qed

text \<open>
  C29.  Idle seconds: the value computed from a device's times is the time since its last access or
  modification, 0 for a time stamp that is missing or in the future, and saturates at
  \<open>UINT32_MAX\<close> instead of wrapping.
\<close>

theorem idle_seconds_saturates:
  "uint (idle_seconds_from_stat st now) =
     (if max (st_atime st) (st_mtime st) \<le> 0 then 0
      else min (2 ^ 32 - 1) (max 0 (now - max (st_atime st) (st_mtime st))))"
  unfolding idle_seconds_latest by (simp add: latest_access_def max_def)

text \<open>
  C30.  A process cannot forge its terminal through its name: the terminal number read from a line of
  \<open>/proc/<pid>/stat\<close> is the fifth field behind the command, whatever parentheses, blanks and
  digits the command holds.
\<close>

theorem tty_nr_any_comm:
  assumes "os_file os (proc_path pid ''stat'') =
      Some (stat_line n comm (stat_fields st ppid pgrp session tty_nr rest) @ [newline])"
    and "is_cstr comm" and "newline \<notin> set comm"
    and "is_cstr rest" and "newline \<notin> set rest" and "CHR '')'' \<notin> set rest"
    and "st \<in> {CHR ''R'', CHR ''S'', CHR ''D'', CHR ''Z'', CHR ''T''}"
    and "- (2 ^ 31) \<le> tty_nr" and "tty_nr < 2 ^ 31"
    and "length (stat_line n comm (stat_fields st ppid pgrp session tty_nr rest)) < 1023"
  shows "read_proc_tty_nr os pid = Some tty_nr"
proof -
  let ?fs = "stat_fields st ppid pgrp session tty_nr rest"
  have dig: "c \<noteq> NUL \<and> c \<noteq> newline \<and> c \<noteq> CHR '')''" if "is_digit c" for c
    using that by (auto simp: is_digit_def)
  have num: "c \<noteq> NUL \<and> c \<noteq> newline \<and> c \<noteq> CHR '')''" if "c \<in> set (fmt_u k)" for c k
    using fmt_u_digits [OF that] dig by blast
  have neg: "c \<noteq> NUL \<and> c \<noteq> newline \<and> c \<noteq> CHR '')''" if "c \<in> set (fmt_d i)" for c i
    using that num by (auto simp: fmt_d_def split: if_splits)
  have fs: "c \<noteq> NUL \<and> c \<noteq> newline \<and> c \<noteq> CHR '')''" if "c \<in> set ?fs" for c
    using that num neg assms(4-7) by (auto simp: stat_fields_def is_cstr_def)
  have ext: "?fs @ [newline] = stat_fields st ppid pgrp session tty_nr (rest @ [newline])"
    by (simp add: stat_fields_def)
  have "read_proc_tty_nr os pid = scan_stat_tail (?fs @ [newline])"
    using fs by (intro read_proc_tty_nr_stat [OF assms(1-3)])
      (auto simp: is_cstr_def assms(10))
  then show ?thesis
    unfolding ext using assms(7-9) by (subst (asm) scan_stat_fields) (auto simp: is_space_def)
qed

text \<open>A process that calls itself \<open>x) R 1 1 1 0 (\<close>, on terminal 34816.\<close>

definition sample_os :: os_view where
  "sample_os = \<lparr>os_file = (\<lambda>p. if p = ''/proc/7/stat''
       then Some (stat_line 7 ''x) R 1 1 1 0 ('' (stat_fields (CHR ''S'') 1 7 7 34816 ''-1 0'') @ [newline])
       else if p = ''/proc/7/cmdline'' then Some (''curl'' @ [NUL] @ ''-s'' @ [NUL]) else None),
     os_readlink = (\<lambda>_. None), os_stat = (\<lambda>_. None), os_listdir = (\<lambda>_. None), os_time = 1000,
     os_localtime = None, os_hostname = None, os_ntop6 = (\<lambda>_. [])\<rparr>"

lemma fmt_u_step [cstr_simps]:
  "fmt_u n = (if n < 10 then [digit_char n] else fmt_u (n div 10) @ [digit_char (n mod 10)])"
  by (subst radix.simps) simp

theorem tty_nr_any_comm_witness:
  "read_proc_tty_nr sample_os 7 = Some 34816"
  by (rule tty_nr_any_comm [of _ _ 7 "''x) R 1 1 1 0 (''" "CHR ''S''" 1 7 7 34816 "''-1 0''"])
    (simp_all add: sample_os_def proc_path_def snprintf_s_def stat_line_def stat_fields_def fmt_d_def
      fmt_u_step)

text \<open>The way the kernel writes a command line: each argument followed by a NUL.\<close>

definition argv_text :: "string list \<Rightarrow> string" where
  "argv_text args = concat (map (\<lambda>a. a @ [NUL]) args)"

fun join_blank :: "string list \<Rightarrow> string" where
  "join_blank [] = []"
| "join_blank [a] = a"
| "join_blank (a # args) = a @ CHR '' '' # join_blank args"

lemma map_argv_text:
  "\<forall>a \<in> set args. is_cstr a \<Longrightarrow>
    map (\<lambda>c. if c = NUL then CHR '' '' else c) (argv_text args) = concat (map (\<lambda>a. a @ '' '') args)"
  by (induction args) (auto simp: argv_text_def is_cstr_def intro: map_idI)

lemma concat_join_blank: "args \<noteq> [] \<Longrightarrow> concat (map (\<lambda>a. a @ '' '') args) = join_blank args @ '' ''"
  by (induction args rule: join_blank.induct) simp_all

lemma last_join_blank: "args \<noteq> [] \<Longrightarrow> last args \<noteq> [] \<Longrightarrow>
    join_blank args \<noteq> [] \<and> last (join_blank args) = last (last args)"
  by (induction args rule: join_blank.induct) auto

lemma rstrip_join_blank:
  assumes "args \<noteq> []" and "last args \<noteq> []" and "last (last args) \<noteq> CHR '' ''"
  shows "rstrip (\<lambda>c. c = CHR '' '') (concat (map (\<lambda>a. a @ '' '') args)) = join_blank args"
proof -
  have "rstrip (\<lambda>c. c = CHR '' '') (join_blank args @ '' '') = rstrip (\<lambda>c. c = CHR '' '') (join_blank args)"
    by (rule rstrip_append_all) simp
  also have "\<dots> = join_blank args"
    using last_join_blank [OF assms(1,2)] assms(3) by (intro rstrip_id) auto
  finally show ?thesis by (simp add: concat_join_blank [OF assms(1)])
qed

text \<open>
  C31.  The command line.  For any argument vector the kernel shows, empty arguments and overlong
  vectors included, the field holds the arguments each followed by a blank, cut at the field and
  without trailing blanks: nothing but trailing blanks is lost below the cut.  Hence a vector that
  fits, and whose last argument is not empty and does not end in a blank, is reported as its
  arguments joined by single blanks.
\<close>

theorem read_proc_cmdline_joins:
  assumes "os_file os (proc_path pid ''cmdline'') = Some (argv_text args)"
    and "\<forall>a \<in> set args. is_cstr a"
  shows "let cut = take (MAX_CMDLINE - 1) (concat (map (\<lambda>a. a @ '' '') args));
      shown = read_proc_cmdline os pid MAX_CMDLINE in
    (\<exists>n. cut = shown @ replicate n (CHR '' '')) \<and> (shown = [] \<or> last shown \<noteq> CHR '' '') \<and>
    (args \<noteq> [] \<and> last args \<noteq> [] \<and> last (last args) \<noteq> CHR '' '' \<and>
       length (argv_text args) < MAX_CMDLINE \<longrightarrow> shown = join_blank args)"
proof -
  define cut where "cut = take (MAX_CMDLINE - 1) (concat (map (\<lambda>a. a @ '' '') args))"
  have shown: "read_proc_cmdline os pid MAX_CMDLINE = rstrip (\<lambda>c. c = CHR '' '') cut"
    using assms(1) by (simp add: read_proc_cmdline_def cut_def map_argv_text [OF assms(2), symmetric] take_map)
  obtain b where b: "cut = rstrip (\<lambda>c. c = CHR '' '') cut @ b" "\<forall>c \<in> set b. c = CHR '' ''"
    using rstrip_suffix_all by blast
  have "b = replicate (length b) (CHR '' '')" by (rule replicate_length_same [OF b(2), symmetric])
  with b(1) have "\<exists>n. cut = rstrip (\<lambda>c. c = CHR '' '') cut @ replicate n (CHR '' '')" by metis
  moreover have "rstrip (\<lambda>c. c = CHR '' '') cut = [] \<or> last (rstrip (\<lambda>c. c = CHR '' '') cut) \<noteq> CHR '' ''"
    using rstrip_last by blast
  moreover have "cut = concat (map (\<lambda>a. a @ '' '') args)" if "length (argv_text args) < MAX_CMDLINE"
  proof -
    have "length (concat (map (\<lambda>a. a @ '' '') args)) = length (argv_text args)"
      by (simp only: map_argv_text [OF assms(2), symmetric] length_map)
    then show ?thesis using that by (simp add: cut_def)
  qed
  ultimately show ?thesis
    unfolding Let_def shown cut_def [symmetric] using rstrip_join_blank [of args] by auto
qed

theorem read_proc_cmdline_joins_witness:
  "read_proc_cmdline sample_os 7 MAX_CMDLINE = ''curl -s''"
  using read_proc_cmdline_joins [of sample_os 7 "[''curl'', ''-s'']"]
  by (simp add: sample_os_def proc_path_def snprintf_s_def argv_text_def fmt_u_step Let_def)

end
