(* ===== verification/FlowState.thy ===== *)
theory FlowState
  imports Detect ProcContext
begin

text \<open>
  The memory of the behavioural flows (\<open>dev/host/asic_main.c\<close>): a fixed array of
  \<open>FLOW_STATE_ENTRIES\<close> entries keyed by the root process of a process tree, each forgotten
  \<open>FLOW_WINDOW_SECONDS\<close> after it was last touched, with a round-robin cursor for the case that
  the array is full.  The abstract view of the array at a time is a map from roots to live entries;
  the interface \<open>root_memory\<close> states what a touch and a lookup do to this map, and inside it any
  run of operations on few enough roots is shown to behave like an unbounded map.
\<close>

section \<open>State\<close>

definition FLOW_STATE_ENTRIES :: nat where "FLOW_STATE_ENTRIES = 256"
definition FLOW_WINDOW_SECONDS :: u32 where "FLOW_WINDOW_SECONDS = 120"

definition flow_window_ns :: u64 where
  "flow_window_ns = ucast FLOW_WINDOW_SECONDS * NS_PER_SECOND"

record flow_state_entry =
  fs_active :: bool
  fs_root_pid :: u32
  fs_last_seen_ns :: u64
  fs_shell_seen :: bool
  fs_transfer_exec_seen :: bool
  fs_sensitive_read_seen :: bool
  fs_public_connect_seen :: bool
  fs_shell_pid :: u32
  fs_transfer_pid :: u32
  fs_sensitive_read_pid :: u32

definition zero_entry :: flow_state_entry where
  "zero_entry = \<lparr>fs_active = False, fs_root_pid = 0, fs_last_seen_ns = 0, fs_shell_seen = False,
     fs_transfer_exec_seen = False, fs_sensitive_read_seen = False, fs_public_connect_seen = False,
     fs_shell_pid = 0, fs_transfer_pid = 0, fs_sensitive_read_pid = 0\<rparr>"

record flow_store =
  fl_entries :: "flow_state_entry list"
  fl_cursor :: size_t

definition init_flow_store :: flow_store where
  "init_flow_store = \<lparr>fl_entries = replicate FLOW_STATE_ENTRIES zero_entry, fl_cursor = 0\<rparr>"

section \<open>Command names\<close>

definition comm_in_list :: "string \<Rightarrow> string list \<Rightarrow> bool" where
  "comm_in_list comm values = list_ex (\<lambda>v. comm = v) values"

definition path_basename :: "string \<Rightarrow> string" where
  "path_basename value = (case split_last (CHR ''/'') value of None \<Rightarrow> value | Some (_, base) \<Rightarrow> base)"

text \<open>\<open>None\<close> is the null \<open>target\<close>.\<close>

definition command_name_in_list :: "string \<Rightarrow> string option \<Rightarrow> string list \<Rightarrow> bool" where
  "command_name_in_list comm target values \<longleftrightarrow>
     comm_in_list comm values \<or>
     (case target of None \<Rightarrow> False | Some t \<Rightarrow> t \<noteq> [] \<and> comm_in_list (path_basename t) values)"

definition shells :: "string list" where
  "shells = [''sh'', ''bash'', ''dash'', ''zsh'']"

definition transfer_tools :: "string list" where
  "transfer_tools = [''curl'', ''wget'', ''nc'', ''ncat'', ''socat'', ''scp'', ''rsync'', ''rclone'',
     ''busybox'', ''python'', ''python3'', ''perl'']"

definition is_shell_command :: "string \<Rightarrow> string option \<Rightarrow> bool" where
  "is_shell_command comm target = command_name_in_list comm target shells"

definition is_transfer_command :: "string \<Rightarrow> string option \<Rightarrow> bool" where
  "is_transfer_command comm target = command_name_in_list comm target transfer_tools"

definition flow_root_pid :: "edr_event \<Rightarrow> process_context \<Rightarrow> u32" where
  "flow_root_pid e proc =
     (if pc_gppid proc \<noteq> 0 then pc_gppid proc
      else if pc_ppid proc \<noteq> 0 then pc_ppid proc
      else e_pid e)"

section \<open>Operations\<close>

definition flow_entry_expired :: "flow_state_entry \<Rightarrow> u64 \<Rightarrow> bool" where
  "flow_entry_expired entry now_ns \<longleftrightarrow>
     fs_active entry \<and>
     (now_ns < fs_last_seen_ns entry \<or> flow_window_ns < now_ns - fs_last_seen_ns entry)"

text \<open>
  The loop of \<open>flow_state_get\<close> over the slots from \<open>i\<close> on: the slot found, else the first free slot,
  and the slots after the loop.
\<close>

fun flow_get_scan :: "u32 \<Rightarrow> u64 \<Rightarrow> nat \<Rightarrow> nat option \<Rightarrow> flow_state_entry list \<Rightarrow>
    nat option \<times> nat option \<times> flow_state_entry list" where
  "flow_get_scan root_pid now_ns i free_entry [] = (None, free_entry, [])"
| "flow_get_scan root_pid now_ns i free_entry (entry # rest) =
     (let entry = (if flow_entry_expired entry now_ns then zero_entry else entry) in
      if fs_active entry \<and> fs_root_pid entry = root_pid then (Some i, free_entry, entry # rest)
      else
        (let free_entry = (if \<not> fs_active entry \<and> free_entry = None then Some i else free_entry) in
         case flow_get_scan root_pid now_ns (i + 1) free_entry rest of
           (found, free_entry, rest) \<Rightarrow> (found, free_entry, entry # rest)))"

definition flow_state_get :: "u32 \<Rightarrow> u64 \<Rightarrow> flow_store \<Rightarrow> nat \<times> flow_store" where
  "flow_state_get root_pid now_ns st =
     (case flow_get_scan root_pid now_ns 0 None (fl_entries st) of
        (Some i, _, entries) \<Rightarrow> (i, st\<lparr>fl_entries := entries\<rparr>)
      | (None, free_entry, entries) \<Rightarrow>
          (let (i, cursor) = (case free_entry of
                 Some i \<Rightarrow> (i, fl_cursor st)
               | None \<Rightarrow> (unat (fl_cursor st mod of_nat FLOW_STATE_ENTRIES), fl_cursor st + 1))
           in (i, \<lparr>fl_entries = entries[i := zero_entry\<lparr>fs_active := True, fs_root_pid := root_pid,
                     fs_last_seen_ns := now_ns\<rparr>], fl_cursor = cursor\<rparr>)))"

text \<open>\<open>flow_state_get\<close>, the time stamp, and the caller's changes to the entry.\<close>

definition flow_touch ::
  "u32 \<Rightarrow> u64 \<Rightarrow> (flow_state_entry \<Rightarrow> flow_state_entry) \<Rightarrow> flow_store \<Rightarrow> flow_store" where
  "flow_touch root_pid now_ns f st =
     (let (i, st) = flow_state_get root_pid now_ns st;
          entry = (fl_entries st ! i)\<lparr>fs_last_seen_ns := now_ns\<rparr>
      in st\<lparr>fl_entries := (fl_entries st)[i := f entry]\<rparr>)"

definition note_exec :: "edr_event \<Rightarrow> flow_state_entry \<Rightarrow> flow_state_entry" where
  "note_exec e entry =
     (let entry = (if is_shell_command (e_comm e) (Some (e_target e))
                   then entry\<lparr>fs_shell_seen := True, fs_shell_pid := e_pid e\<rparr> else entry)
      in if is_transfer_command (e_comm e) (Some (e_target e))
         then entry\<lparr>fs_transfer_exec_seen := True, fs_transfer_pid := e_pid e\<rparr> else entry)"

definition note_connect :: "edr_event \<Rightarrow> flow_state_entry \<Rightarrow> flow_state_entry" where
  "note_connect e entry =
     (if nc_scope (classify_net_destination e) = ''public''
      then entry\<lparr>fs_public_connect_seen := True\<rparr> else entry)"

definition note_sensitive_read :: "edr_event \<Rightarrow> flow_state_entry \<Rightarrow> flow_state_entry" where
  "note_sensitive_read e entry =
     entry\<lparr>fs_sensitive_read_seen := True, fs_sensitive_read_pid := e_pid e\<rparr>"

definition flow_state_observe_event :: "edr_event \<Rightarrow> process_context \<Rightarrow> flow_store \<Rightarrow> flow_store" where
  "flow_state_observe_event e proc st =
     (if e_type e \<noteq> EDR_EVENT_EXEC \<and> e_type e \<noteq> EDR_EVENT_CONNECT then st
      else flow_touch (flow_root_pid e proc) (e_timestamp_ns e)
             (if e_type e = EDR_EVENT_EXEC then note_exec e else note_connect e) st)"

definition flow_state_observe_sensitive_read ::
  "edr_event \<Rightarrow> process_context \<Rightarrow> flow_store \<Rightarrow> flow_store" where
  "flow_state_observe_sensitive_read e proc st =
     flow_touch (flow_root_pid e proc) (e_timestamp_ns e) (note_sensitive_read e) st"

fun flow_lookup_scan :: "u32 \<Rightarrow> u64 \<Rightarrow> flow_state_entry list \<Rightarrow>
    flow_state_entry option \<times> flow_state_entry list" where
  "flow_lookup_scan root_pid now_ns [] = (None, [])"
| "flow_lookup_scan root_pid now_ns (entry # rest) =
     (if flow_entry_expired entry now_ns
      then (case flow_lookup_scan root_pid now_ns rest of (r, rest) \<Rightarrow> (r, zero_entry # rest))
      else if fs_active entry \<and> fs_root_pid entry = root_pid then (Some entry, entry # rest)
      else (case flow_lookup_scan root_pid now_ns rest of (r, rest) \<Rightarrow> (r, entry # rest)))"

definition flow_state_lookup :: "u32 \<Rightarrow> u64 \<Rightarrow> flow_store \<Rightarrow> flow_state_entry option \<times> flow_store" where
  "flow_state_lookup root_pid now_ns st =
     (case flow_lookup_scan root_pid now_ns (fl_entries st) of
        (r, entries) \<Rightarrow> (r, st\<lparr>fl_entries := entries\<rparr>))"

section \<open>What the scans do\<close>

definition live :: "u64 \<Rightarrow> flow_state_entry \<Rightarrow> bool" where
  "live now e \<longleftrightarrow> fs_active e \<and> \<not> flow_entry_expired e now"

definition purge :: "u64 \<Rightarrow> flow_state_entry \<Rightarrow> flow_state_entry" where
  "purge now e = (if flow_entry_expired e now then zero_entry else e)"

text \<open>The slots before and after a scan: each is kept or, if expired, cleared.\<close>

definition swept :: "u64 \<Rightarrow> flow_state_entry list \<Rightarrow> flow_state_entry list \<Rightarrow> bool" where
  "swept now es es' \<longleftrightarrow> list_all2 (\<lambda>e e'. e' = e \<or> e' = purge now e) es es'"

named_theorems flow_simps \<open>entries, liveness and sweeping\<close>

lemma zero_entry_fields [simp]: "\<not> fs_active zero_entry"
  by (simp add: zero_entry_def)

lemma live_zero [flow_simps, simp]: "\<not> live now zero_entry"
  by (simp add: live_def)

lemma live_purge [flow_simps, simp]: "live now (purge now e) \<longleftrightarrow> live now e"
  by (simp add: purge_def live_def)

lemma active_purge [flow_simps]: "fs_active (purge now e) \<longleftrightarrow> live now e"
  by (simp add: purge_def live_def)

lemma purge_live [flow_simps]: "live now e \<Longrightarrow> purge now e = e"
  by (simp add: purge_def live_def)

lemma swept_refl [intro, simp]: "swept now es es"
  by (simp add: swept_def list_all2_same)

lemma swept_map_purge [intro, simp]: "swept now es (map (purge now) es)"
  by (simp add: swept_def list_all2_conv_all_nth)

lemma swept_length: "swept now es es' \<Longrightarrow> length es' = length es"
  by (simp add: swept_def list_all2_lengthD)

lemma swept_nth:
  "swept now es es' \<Longrightarrow> k < length es \<Longrightarrow> es' ! k = es ! k \<or> es' ! k = purge now (es ! k)"
  by (auto simp: swept_def list_all2_conv_all_nth)

lemma swept_live: "swept now es es' \<Longrightarrow> k < length es \<Longrightarrow> live now (es' ! k) \<longleftrightarrow> live now (es ! k)"
  using swept_nth by fastforce

lemma swept_live_nth: "swept now es es' \<Longrightarrow> k < length es \<Longrightarrow> live now (es ! k) \<Longrightarrow> es' ! k = es ! k"
  using swept_nth purge_live by metis

lemma swept_active: "swept now es es' \<Longrightarrow> k < length es \<Longrightarrow> fs_active (es' ! k) \<Longrightarrow>
    es' ! k = es ! k"
  using swept_nth [of now es es' k] by (auto simp: purge_def split: if_splits)

lemma flow_lookup_scan_spec:
  "flow_lookup_scan root now es = (r, es') \<Longrightarrow>
   swept now es es' \<and> r = List.find (\<lambda>e. live now e \<and> fs_root_pid e = root) es"
proof (induction es arbitrary: es')
  case (Cons e es)
  then show ?case
    by (auto simp: swept_def purge_def live_def flow_entry_expired_def list_all2_same
        split: if_splits prod.splits)
qed (simp add: swept_def)

lemma flow_get_scan_swept:
  "flow_get_scan root now i free es = (found, free', es') \<Longrightarrow> swept now es es'"
proof (induction root now i free es arbitrary: found free' es' rule: flow_get_scan.induct)
  case (2 root now i free e es)
  then show ?case
    by (auto simp: swept_def purge_def Let_def list_all2_same split: if_splits prod.splits)
qed simp

lemma flow_get_scan_found:
  "flow_get_scan root now i free es = (Some j, free', es') \<Longrightarrow>
   \<exists>k < length es. j = i + k \<and> live now (es ! k) \<and> fs_root_pid (es ! k) = root"
proof (induction root now i free es arbitrary: free' es' rule: flow_get_scan.induct)
  case (2 root now i free e es)
  show ?case
  proof (cases "live now e \<and> fs_root_pid e = root")
    case True
    then have "j = i" using "2.prems" by (auto simp: live_def Let_def)
    then show ?thesis using True by (intro exI [of _ 0]) simp
  next
    case False
    let ?e = "if flow_entry_expired e now then zero_entry else e"
    have c: "\<not> (fs_active ?e \<and> fs_root_pid ?e = root)" using False by (auto simp: live_def)
    define fr where "fr = (if \<not> fs_active ?e \<and> free = None then Some i else free)"
    obtain fr' es'' where "flow_get_scan root now (i + 1) fr es = (Some j, fr', es'')"
      using "2.prems" c by (auto simp: Let_def fr_def [symmetric] simp del: if_split
          split: prod.splits)
    then obtain k where "k < length es" "j = i + 1 + k" "live now (es ! k)" "fs_root_pid (es ! k) = root"
      using "2.IH" [OF refl c fr_def] by blast
    then show ?thesis by (intro exI [of _ "Suc k"]) simp
  qed
qed simp

lemma flow_get_scan_missing:
  "flow_get_scan root now i free es = (None, free', es') \<Longrightarrow>
   es' = map (purge now) es \<and> (\<forall>e \<in> set es. \<not> (live now e \<and> fs_root_pid e = root)) \<and>
   (case free' of
      None \<Rightarrow> free = None \<and> (\<forall>e \<in> set es. live now e)
    | Some j \<Rightarrow> free = Some j \<or> (\<exists>k < length es. j = i + k \<and> \<not> live now (es ! k)))"
proof (induction root now i free es arbitrary: free' es' rule: flow_get_scan.induct)
  case (2 root now i free e es)
  let ?e = "if flow_entry_expired e now then zero_entry else e"
  have c: "\<not> (fs_active ?e \<and> fs_root_pid ?e = root)"
    using "2.prems" by (auto simp: Let_def)
  define fr where "fr = (if \<not> fs_active ?e \<and> free = None then Some i else free)"
  obtain es'' where s: "flow_get_scan root now (i + 1) fr es = (None, free', es'')"
      "es' = ?e # es''"
    using "2.prems" c by (auto simp: Let_def fr_def [symmetric] simp del: if_split split: prod.splits)
  note ih = "2.IH" [OF refl c fr_def s(1)]
  have act: "fs_active ?e = live now e" by (simp add: live_def)
  show ?case
  proof (intro conjI)
    show "es' = map (purge now) (e # es)" using s(2) ih by (simp add: purge_def)
    show "\<forall>x \<in> set (e # es). \<not> (live now x \<and> fs_root_pid x = root)"
      using ih c by (auto simp: live_def)
    show "case free' of
      None \<Rightarrow> free = None \<and> (\<forall>e \<in> set (e # es). live now e)
    | Some j \<Rightarrow> free = Some j \<or> (\<exists>k < length (e # es). j = i + k \<and> \<not> live now ((e # es) ! k))"
    proof (cases free')
      case None
      then show ?thesis using ih act by (auto simp: fr_def split: if_splits)
    next
      case (Some j)
      consider "fr = Some j" | k where "k < length es" "j = i + 1 + k" "\<not> live now (es ! k)"
        using ih Some by auto
      then show ?thesis
      proof cases
        case 1
        then show ?thesis using Some act by (auto simp: fr_def split: if_splits)
      next
        case 2
        then show ?thesis using Some by (auto intro!: exI [of _ "Suc k"])
      qed
    qed
  qed
qed (simp split: option.split)

section \<open>The store as a map\<close>

definition slots_wf :: "flow_state_entry list \<Rightarrow> bool" where
  "slots_wf es \<longleftrightarrow> length es = FLOW_STATE_ENTRIES \<and>
     (\<forall>i < FLOW_STATE_ENTRIES. \<forall>j < FLOW_STATE_ENTRIES.
        fs_active (es ! i) \<and> fs_active (es ! j) \<and> fs_root_pid (es ! i) = fs_root_pid (es ! j) \<longrightarrow> i = j)"

definition flow_wf :: "flow_store \<Rightarrow> bool" where
  "flow_wf st \<longleftrightarrow> slots_wf (fl_entries st)"

definition find_live :: "u64 \<Rightarrow> flow_state_entry list \<Rightarrow> u32 \<Rightarrow> flow_state_entry option" where
  "find_live now es r = List.find (\<lambda>e. live now e \<and> fs_root_pid e = r) es"

definition flow_view :: "u64 \<Rightarrow> flow_store \<Rightarrow> u32 \<Rightarrow> flow_state_entry option" where
  "flow_view now st = find_live now (fl_entries st)"

lemma slots_wf_inj:
  "slots_wf es \<Longrightarrow> i < length es \<Longrightarrow> j < length es \<Longrightarrow> fs_active (es ! i) \<Longrightarrow> fs_active (es ! j) \<Longrightarrow>
    fs_root_pid (es ! i) = fs_root_pid (es ! j) \<Longrightarrow> i = j"
  by (auto simp: slots_wf_def)

lemma live_active: "live now e \<Longrightarrow> fs_active e"
  by (simp add: live_def)

lemma find_live_Some:
  assumes "slots_wf es"
  shows "find_live now es r = Some e \<longleftrightarrow>
    (\<exists>k < length es. es ! k = e \<and> live now e \<and> fs_root_pid e = r)"
proof
  assume "find_live now es r = Some e"
  then show "\<exists>k < length es. es ! k = e \<and> live now e \<and> fs_root_pid e = r"
    by (auto simp: find_live_def find_Some_iff)
next
  assume "\<exists>k < length es. es ! k = e \<and> live now e \<and> fs_root_pid e = r"
  then obtain k where k: "k < length es" "es ! k = e" "live now e" "fs_root_pid e = r" by blast
  have "\<not> (live now (es ! j) \<and> fs_root_pid (es ! j) = r)" if "j < k" for j
    using slots_wf_inj [OF assms, of j k] that k live_active by fastforce
  then show "find_live now es r = Some e"
    using k by (auto simp: find_live_def find_Some_iff)
qed

lemma find_live_None:
  "find_live now es r = None \<longleftrightarrow> (\<forall>k < length es. \<not> (live now (es ! k) \<and> fs_root_pid (es ! k) = r))"
  by (auto simp: find_live_def find_None_iff in_set_conv_nth)

lemma option_eq_iff: "(\<And>x. a = Some x \<longleftrightarrow> b = Some x) \<Longrightarrow> a = b"
  by (cases a; cases b) auto

lemma swept_slots_wf:
  assumes "slots_wf es" and "swept now es es'"
  shows "slots_wf es'"
  unfolding slots_wf_def
proof (intro conjI allI impI)
  show "length es' = FLOW_STATE_ENTRIES"
    using assms swept_length by (simp add: slots_wf_def)
  fix i j
  assume "i < FLOW_STATE_ENTRIES" "j < FLOW_STATE_ENTRIES" and
    a: "fs_active (es' ! i) \<and> fs_active (es' ! j) \<and> fs_root_pid (es' ! i) = fs_root_pid (es' ! j)"
  then have l: "i < length es" "j < length es" using assms(1) by (simp_all add: slots_wf_def)
  have "es' ! i = es ! i" "es' ! j = es ! j" using a l swept_active [OF assms(2)] by blast+
  then show "i = j" using slots_wf_inj [OF assms(1) l] a by simp
qed

lemma swept_find_live:
  assumes "slots_wf es" and "swept now es es'"
  shows "find_live now es' r = find_live now es r"
proof (rule option_eq_iff)
  fix e
  have len: "length es' = length es" using assms(2) by (rule swept_length)
  have "(k < length es \<and> es' ! k = e \<and> live now e) = (k < length es \<and> es ! k = e \<and> live now e)" for k
    using swept_live [OF assms(2), of k] swept_live_nth [OF assms(2), of k] by metis
  then show "find_live now es' r = Some e \<longleftrightarrow> find_live now es r = Some e"
    by (simp add: find_live_Some [OF assms(1)] find_live_Some [OF swept_slots_wf [OF assms]] len)
      metis
qed

lemma update_slot:
  assumes "slots_wf es" and "i < length es" and "live now new" and "fs_root_pid new = root"
    and other: "\<And>k. k < length es \<Longrightarrow> k \<noteq> i \<Longrightarrow> \<not> (fs_active (es ! k) \<and> fs_root_pid (es ! k) = root)"
  shows "slots_wf (es[i := new])"
    and "find_live now (es[i := new]) r =
      (if r = root then Some new
       else if live now (es ! i) \<and> fs_root_pid (es ! i) = r then None else find_live now es r)"
proof -
  show w: "slots_wf (es[i := new])"
    using assms(1,2,4) other slots_wf_inj [OF assms(1)]
    by (simp add: slots_wf_def nth_list_update) metis
  show "find_live now (es[i := new]) r =
      (if r = root then Some new
       else if live now (es ! i) \<and> fs_root_pid (es ! i) = r then None else find_live now es r)"
  proof (cases "r = root")
    case True
    then show ?thesis using assms(2-4) by (auto simp: find_live_Some [OF w] intro!: exI [of _ i])
  next
    case False
    have *: "find_live now (es[i := new]) r = Some e \<longleftrightarrow>
        (\<exists>k < length es. k \<noteq> i \<and> es ! k = e \<and> live now e \<and> fs_root_pid e = r)" for e
    proof -
      have "(es[i := new] ! k = e \<and> fs_root_pid e = r) \<longleftrightarrow> (k \<noteq> i \<and> es ! k = e \<and> fs_root_pid e = r)"
        for k
        using False assms(2,4) by (cases "k = i") auto
      then show ?thesis unfolding find_live_Some [OF w] length_list_update by blast
    qed
    show ?thesis
    proof (cases "live now (es ! i) \<and> fs_root_pid (es ! i) = r")
      case True
      have "find_live now (es[i := new]) r \<noteq> Some e" for e
      proof
        assume "find_live now (es[i := new]) r = Some e"
        then obtain k where k: "k < length es" "k \<noteq> i" "live now (es ! k)" "fs_root_pid (es ! k) = r"
          unfolding * by blast
        have "fs_active (es ! k)" "fs_active (es ! i)"
          using k(3) True by (simp_all add: live_active [of now])
        then show False using slots_wf_inj [OF assms(1) k(1) assms(2)] k True by simp
      qed
      then have "find_live now (es[i := new]) r = None" by (metis not_None_eq)
      then show ?thesis using True False by simp
    next
      case no: False
      have "find_live now (es[i := new]) r = Some e \<longleftrightarrow> find_live now es r = Some e" for e
        unfolding * find_live_Some [OF assms(1)] using no by blast
      then have "find_live now (es[i := new]) r = find_live now es r" by (rule option_eq_iff)
      then show ?thesis using no False by auto
    qed
  qed
qed

section \<open>Touching and looking up\<close>

definition fresh_entry :: "u32 \<Rightarrow> u64 \<Rightarrow> flow_state_entry" where
  "fresh_entry root now = zero_entry\<lparr>fs_active := True, fs_root_pid := root, fs_last_seen_ns := now\<rparr>"

text \<open>The callers' changes leave the key, the activity and the time stamp alone.\<close>

definition keeps_key :: "(flow_state_entry \<Rightarrow> flow_state_entry) \<Rightarrow> bool" where
  "keeps_key f \<longleftrightarrow> (\<forall>e. fs_active (f e) = fs_active e \<and> fs_root_pid (f e) = fs_root_pid e \<and>
     fs_last_seen_ns (f e) = fs_last_seen_ns e)"

lemma keeps_key_notes [intro, simp]:
  "keeps_key (note_exec e)" "keeps_key (note_connect e)" "keeps_key (note_sensitive_read e)"
  by (simp_all add: keeps_key_def note_exec_def note_connect_def note_sensitive_read_def Let_def)

lemma live_now: "fs_active e \<Longrightarrow> fs_last_seen_ns e = now \<Longrightarrow> live now e"
  by (simp add: live_def flow_entry_expired_def)

definition touched ::
  "u32 \<Rightarrow> u64 \<Rightarrow> (flow_state_entry \<Rightarrow> flow_state_entry) \<Rightarrow> flow_state_entry option \<Rightarrow> flow_state_entry" where
  "touched root now f v =
     f ((case v of Some e \<Rightarrow> e | None \<Rightarrow> fresh_entry root now)\<lparr>fs_last_seen_ns := now\<rparr>)"

definition all_live :: "u64 \<Rightarrow> flow_store \<Rightarrow> bool" where
  "all_live now st \<longleftrightarrow> (\<forall>e \<in> set (fl_entries st). live now e)"

definition cursor_slot :: "flow_store \<Rightarrow> nat" where
  "cursor_slot st = unat (fl_cursor st mod of_nat FLOW_STATE_ENTRIES)"

lemma cursor_slot_less: "cursor_slot st < FLOW_STATE_ENTRIES"
  by (simp add: cursor_slot_def FLOW_STATE_ENTRIES_def unat_mod)

lemma touched_live:
  assumes "keeps_key f" and v: "\<And>e. v = Some e \<Longrightarrow> fs_active e \<and> fs_root_pid e = root"
  shows "live now (touched root now f v)" and "fs_root_pid (touched root now f v) = root"
proof -
  define x where "x = (case v of Some e \<Rightarrow> e | None \<Rightarrow> fresh_entry root now)\<lparr>fs_last_seen_ns := now\<rparr>"
  have x: "fs_active x" "fs_root_pid x = root" "fs_last_seen_ns x = now"
    by (cases v; use v in \<open>simp add: x_def fresh_entry_def\<close>)+
  have "fs_active (f x) = fs_active x \<and> fs_root_pid (f x) = fs_root_pid x \<and>
      fs_last_seen_ns (f x) = fs_last_seen_ns x"
    using assms(1) unfolding keeps_key_def by blast
  moreover have "touched root now f v = f x" by (simp only: touched_def x_def)
  ultimately show "live now (touched root now f v)" "fs_root_pid (touched root now f v) = root"
    using x by (simp_all add: live_now)
qed

text \<open>A get that finds no live entry: the first slot without one, else the one under the cursor.\<close>

lemma flow_state_get_new:
  assumes wf: "flow_wf st" and get: "flow_state_get root now st = (i, st')"
    and scan: "flow_get_scan root now 0 None (fl_entries st) = (None, free, es)"
  shows "i < length (fl_entries st)"
    and "if all_live now st then i = cursor_slot st else \<not> live now (fl_entries st ! i)"
    and "fl_entries st' = es[i := fresh_entry root now]"
proof -
  note miss = flow_get_scan_missing [OF scan]
  have len: "length (fl_entries st) = FLOW_STATE_ENTRIES" using wf by (simp add: flow_wf_def slots_wf_def)
  have "i < length (fl_entries st) \<and> (if all_live now st then i = cursor_slot st else \<not> live now (fl_entries st ! i))
      \<and> fl_entries st' = es[i := fresh_entry root now]"
  proof (cases free)
    case None
    then show ?thesis using miss get scan cursor_slot_less [of st] len
      by (auto simp: flow_state_get_def all_live_def cursor_slot_def fresh_entry_def)
  next
    case (Some j)
    then have "i = j" "fl_entries st' = es[i := fresh_entry root now]"
      using get scan by (auto simp: flow_state_get_def fresh_entry_def)
    then show ?thesis using miss Some by (auto simp: all_live_def)
  qed
  then show "i < length (fl_entries st)"
    "if all_live now st then i = cursor_slot st else \<not> live now (fl_entries st ! i)"
    "fl_entries st' = es[i := fresh_entry root now]"
    by blast+
qed

text \<open>The slot a get returns, and the slots it was chosen among.\<close>

lemma flow_state_get_slot:
  assumes wf: "flow_wf st" and get: "flow_state_get root now st = (i, st')"
  obtains es where "swept now (fl_entries st) es" and "i < length es"
    and "\<And>k. k < length es \<Longrightarrow> k \<noteq> i \<Longrightarrow> \<not> (fs_active (es ! k) \<and> fs_root_pid (es ! k) = root)"
    and "(case flow_view now st root of
        Some e \<Rightarrow> es ! i = e \<and> live now e \<and> fs_root_pid e = root \<and> fl_entries st' = es
      | None \<Rightarrow> fl_entries st' = es[i := fresh_entry root now] \<and>
          (if all_live now st then i = cursor_slot st else \<not> live now (es ! i)))"
proof -
  let ?es = "fl_entries st"
  have w: "slots_wf ?es" and len: "length ?es = FLOW_STATE_ENTRIES"
    using wf by (simp_all add: flow_wf_def slots_wf_def)
  obtain found free es where scan: "flow_get_scan root now 0 None ?es = (found, free, es)"
    by (cases "flow_get_scan root now 0 None ?es") auto
  have sw: "swept now ?es es" by (rule flow_get_scan_swept [OF scan])
  have lenes: "length es = length ?es" using sw by (rule swept_length)
  show thesis
  proof (cases found)
    case (Some j)
    then have k: "j < length ?es" "live now (?es ! j)" "fs_root_pid (?es ! j) = root"
      using flow_get_scan_found scan by fastforce+
    then have v: "flow_view now st root = Some (?es ! j)"
      by (auto simp: flow_view_def find_live_Some [OF w])
    have ij: "i = j" "fl_entries st' = es"
      using get scan Some by (auto simp: flow_state_get_def)
    have esj: "es ! j = ?es ! j" using swept_live_nth [OF sw] k by blast
    show thesis
    proof (rule that [OF sw])
      show "i < length es" using ij k lenes by simp
      show "\<not> (fs_active (es ! k') \<and> fs_root_pid (es ! k') = root)" if "k' < length es" "k' \<noteq> i" for k'
        using slots_wf_inj [OF swept_slots_wf [OF w sw] that(1), of j] that k ij lenes esj live_active
        by metis
    qed (use v k ij esj in simp)
  next
    case None
    note miss = flow_get_scan_missing [OF scan [unfolded None]]
    have v: "flow_view now st root = None"
      using miss by (auto simp: flow_view_def find_live_None)
    note slot = flow_state_get_new [OF wf get scan [unfolded None]]
    show thesis
    proof (rule that [OF sw])
      show "i < length es" using slot lenes by simp
      show "\<not> (fs_active (es ! k) \<and> fs_root_pid (es ! k) = root)" if "k < length es" "k \<noteq> i" for k
        using that miss lenes by (auto simp: active_purge purge_live)
      show "case flow_view now st root of
        Some e \<Rightarrow> es ! i = e \<and> live now e \<and> fs_root_pid e = root \<and> fl_entries st' = es
      | None \<Rightarrow> fl_entries st' = es[i := fresh_entry root now] \<and>
          (if all_live now st then i = cursor_slot st else \<not> live now (es ! i))"
        using v slot swept_live [OF sw, of i] by auto
    qed
  qed
qed

text \<open>
  A touch: the root's entry becomes the touched one, a fresh one if none was live, and no other root
  is affected, except that a full store of live entries gives up the one under the cursor.
\<close>

lemma flow_touch_spec:
  assumes wf: "flow_wf st" and f: "keeps_key f"
  shows "flow_wf (flow_touch root now f st)"
    and "flow_view now (flow_touch root now f st) r =
      (if r = root then Some (touched root now f (flow_view now st root))
       else if flow_view now st root = None \<and> all_live now st \<and>
               fs_root_pid (fl_entries st ! cursor_slot st) = r then None
       else flow_view now st r)"
proof -
  obtain i st' where get: "flow_state_get root now st = (i, st')"
    by (cases "flow_state_get root now st")
  obtain es where sw: "swept now (fl_entries st) es" and i: "i < length es"
    and other: "\<And>k. k < length es \<Longrightarrow> k \<noteq> i \<Longrightarrow> \<not> (fs_active (es ! k) \<and> fs_root_pid (es ! k) = root)"
    and c: "(case flow_view now st root of
        Some e \<Rightarrow> es ! i = e \<and> live now e \<and> fs_root_pid e = root \<and> fl_entries st' = es
      | None \<Rightarrow> fl_entries st' = es[i := fresh_entry root now] \<and>
          (if all_live now st then i = cursor_slot st else \<not> live now (es ! i)))"
    using flow_state_get_slot [OF wf get] by blast
  let ?new = "touched root now f (flow_view now st root)"
  have w0: "slots_wf (fl_entries st)" using wf by (simp add: flow_wf_def)
  have w: "slots_wf es" by (rule swept_slots_wf [OF w0 sw])
  have "fs_active e \<and> fs_root_pid e = root" if "flow_view now st root = Some e" for e
    using c that live_active by auto
  note new = touched_live [OF f this]
  have t: "fl_entries (flow_touch root now f st) = es[i := ?new]"
    using c i by (auto simp: flow_touch_def get touched_def fresh_entry_def Let_def split: option.splits)
  note u = update_slot [OF w i new other]
  show "flow_wf (flow_touch root now f st)" using u(1) by (simp add: flow_wf_def t)
  have v: "find_live now es = flow_view now st"
    by (rule ext) (simp add: flow_view_def swept_find_live [OF w0 sw])
  have hit: "live now (es ! i) \<and> fs_root_pid (es ! i) = r \<longleftrightarrow> flow_view now st root = None \<and>
      all_live now st \<and> fs_root_pid (fl_entries st ! cursor_slot st) = r" if "r \<noteq> root"
    using c that swept_live_nth [OF sw, of i] i swept_length [OF sw]
    by (auto simp: all_live_def split: option.splits if_splits)
  show "flow_view now (flow_touch root now f st) r =
      (if r = root then Some ?new
       else if flow_view now st root = None \<and> all_live now st \<and>
               fs_root_pid (fl_entries st ! cursor_slot st) = r then None
       else flow_view now st r)"
    using u(2) [where r = r] hit by (simp add: flow_view_def [of now "flow_touch root now f st"] t v)
qed

lemma flow_state_lookup_spec:
  assumes "flow_wf st" and "flow_state_lookup root now st = (r, st')"
  shows "r = flow_view now st root" and "flow_wf st'" and "flow_view now st' = flow_view now st"
    and "swept now (fl_entries st) (fl_entries st')"
proof -
  have w: "slots_wf (fl_entries st)" using assms(1) by (simp add: flow_wf_def)
  have s: "flow_lookup_scan root now (fl_entries st) = (r, fl_entries st')"
    using assms(2) by (auto simp: flow_state_lookup_def split: prod.splits)
  note spec = flow_lookup_scan_spec [OF s]
  show "r = flow_view now st root" using spec by (simp add: flow_view_def find_live_def)
  show "swept now (fl_entries st) (fl_entries st')" using spec by simp
  show "flow_wf st'" using spec swept_slots_wf [OF w] unfolding flow_wf_def by blast
  show "flow_view now st' = flow_view now st"
    using spec swept_find_live [OF w] unfolding flow_view_def by blast
qed

section \<open>Runs of operations\<close>

text \<open>Operations on the store, with their root and time.\<close>

datatype flow_op = Touch u32 u64 "flow_state_entry \<Rightarrow> flow_state_entry" | Lookup u32 u64

fun op_root :: "flow_op \<Rightarrow> u32" where
  "op_root (Touch root now f) = root"
| "op_root (Lookup root now) = root"

fun op_time :: "flow_op \<Rightarrow> u64" where
  "op_time (Touch root now f) = now"
| "op_time (Lookup root now) = now"

fun op_ok :: "flow_op \<Rightarrow> bool" where
  "op_ok (Touch root now f) = keeps_key f"
| "op_ok (Lookup root now) = True"

definition live_only :: "u64 \<Rightarrow> flow_state_entry option \<Rightarrow> flow_state_entry option" where
  "live_only now v = (case v of None \<Rightarrow> None | Some e \<Rightarrow> if live now e then Some e else None)"

text \<open>The unbounded map the store stands for: lookups change nothing, nothing is ever given up.\<close>

fun ideal_step :: "flow_op \<Rightarrow> (u32 \<rightharpoonup> flow_state_entry) \<Rightarrow> (u32 \<rightharpoonup> flow_state_entry)" where
  "ideal_step (Touch root now f) m = m(root \<mapsto> touched root now f (live_only now (m root)))"
| "ideal_step (Lookup root now) m = m"

lemma live_earlier:
  assumes "live now' e" and "fs_last_seen_ns e \<le> now" and "now \<le> now'"
  shows "live now e"
proof -
  have "now - fs_last_seen_ns e \<le> now' - fs_last_seen_ns e"
    using assms(2,3) by (simp add: word_le_nat_alt unat_sub)
  then show ?thesis using assms by (auto simp: live_def flow_entry_expired_def)
qed

lemma live_only_simps [simp]:
  "live_only now None = None" "live now e \<Longrightarrow> live_only now (Some e) = Some e"
  by (simp_all add: live_only_def)

lemma live_only_later:
  assumes "now \<le> now'" and "\<And>e. v = Some e \<Longrightarrow> fs_last_seen_ns e \<le> now"
  shows "live_only now' (live_only now v) = live_only now' v"
  using assms live_earlier [of now' _ now] by (auto simp: live_only_def split: option.split)

lemma touched_fields:
  "keeps_key f \<Longrightarrow> fs_last_seen_ns (touched root now f v) = now"
  by (simp add: touched_def keeps_key_def)

text \<open>
  What the flow rules rely on in the memory: \<open>view\<close> is the map of live entries at a time, \<open>held\<close> the
  roots that take up room, \<open>stamped\<close> says that nothing was touched later than a given time.
\<close>

locale root_memory =
  fixes inv :: "'s \<Rightarrow> bool"
    and stamped :: "u64 \<Rightarrow> 's \<Rightarrow> bool"
    and held :: "'s \<Rightarrow> u32 set"
    and view :: "u64 \<Rightarrow> 's \<Rightarrow> u32 \<Rightarrow> flow_state_entry option"
    and touch :: "u32 \<Rightarrow> u64 \<Rightarrow> (flow_state_entry \<Rightarrow> flow_state_entry) \<Rightarrow> 's \<Rightarrow> 's"
    and probe :: "u32 \<Rightarrow> u64 \<Rightarrow> 's \<Rightarrow> 's"
    and cap :: nat
  assumes touch_inv: "inv s \<Longrightarrow> keeps_key f \<Longrightarrow> inv (touch root now f s)"
    and probe_inv: "inv s \<Longrightarrow> inv (probe root now s)"
    and touch_stamped: "inv s \<Longrightarrow> keeps_key f \<Longrightarrow> stamped now s \<Longrightarrow> stamped now (touch root now f s)"
    and probe_stamped: "inv s \<Longrightarrow> stamped now s \<Longrightarrow> stamped now (probe root now s)"
    and stamped_later: "stamped now s \<Longrightarrow> now \<le> now' \<Longrightarrow> stamped now' s"
    and touch_held: "inv s \<Longrightarrow> keeps_key f \<Longrightarrow> held (touch root now f s) \<subseteq> insert root (held s)"
    and probe_held: "inv s \<Longrightarrow> held (probe root now s) \<subseteq> held s"
    and touch_view: "inv s \<Longrightarrow> keeps_key f \<Longrightarrow> card (insert root (held s)) \<le> cap \<Longrightarrow>
      view now (touch root now f s) r =
        (if r = root then Some (touched root now f (view now s root)) else view now s r)"
    and probe_view: "inv s \<Longrightarrow> view now (probe root now s) r = view now s r"
    and view_later: "inv s \<Longrightarrow> stamped now s \<Longrightarrow> now \<le> now' \<Longrightarrow>
      view now' s r = live_only now' (view now s r)"
begin

fun step :: "flow_op \<Rightarrow> 's \<Rightarrow> 's" where
  "step (Touch root now f) s = touch root now f s"
| "step (Lookup root now) s = probe root now s"

definition agrees :: "u64 \<Rightarrow> 's \<Rightarrow> (u32 \<rightharpoonup> flow_state_entry) \<Rightarrow> bool" where
  "agrees now s m \<longleftrightarrow> inv s \<and> stamped now s \<and> (\<forall>r. view now s r = live_only now (m r)) \<and>
     (\<forall>r e. m r = Some e \<longrightarrow> fs_last_seen_ns e \<le> now)"

lemma agrees_later: "agrees now s m \<Longrightarrow> now \<le> now' \<Longrightarrow> agrees now' s m"
  unfolding agrees_def using stamped_later view_later live_only_later order.trans by metis

lemma agrees_step:
  assumes "agrees now s m" and "now \<le> op_time x" and "op_ok x"
    and "card (insert (op_root x) (held s)) \<le> cap"
  shows "agrees (op_time x) (step x s) (ideal_step x m)"
proof (cases x)
  case (Touch root t f)
  have a: "agrees t s m" using agrees_later assms(1,2) Touch by simp
  have f: "keeps_key f" using assms(3) Touch by simp
  have i: "inv s" "stamped t s" using a by (simp_all add: agrees_def)
  have v: "view t (touch root t f s) r =
      (if r = root then Some (touched root t f (view t s root)) else view t s r)" for r
    using touch_view [OF i(1) f] assms(4) Touch by simp
  have l: "live t (touched root t f w)" if "view t s root = w" for w
    using a that f by (auto simp: agrees_def touched_def keeps_key_def live_only_def fresh_entry_def
        intro!: live_now split: option.splits if_splits dest: live_active)
  have e: "live_only t (m r) = view t s r" for r using a by (simp add: agrees_def)
  have "agrees t (touch root t f s) (m(root \<mapsto> touched root t f (view t s root)))"
    unfolding agrees_def
    using v l touch_inv [OF i(1) f] touch_stamped [OF i(1) f i(2)] a touched_fields [OF f]
    by (auto simp: agrees_def)
  then show ?thesis using Touch by (simp add: e)
next
  case (Lookup root t)
  have a: "agrees t s m" using agrees_later assms(1,2) Lookup by simp
  then show ?thesis
    using Lookup probe_inv probe_stamped probe_view by (auto simp: agrees_def)
qed

lemma held_step: "inv s \<Longrightarrow> op_ok x \<Longrightarrow> held (step x s) \<subseteq> insert (op_root x) (held s)"
  using touch_held probe_held by (cases x) fastforce+

theorem run_agrees:
  assumes "agrees now s m" and "sorted (now # map op_time ops)" and "\<forall>x \<in> set ops. op_ok x"
    and "card (held s \<union> op_root ` set ops) \<le> cap"
  shows "agrees (last (now # map op_time ops)) (fold step ops s) (fold ideal_step ops m)"
  using assms
proof (induction ops arbitrary: now s m)
  case (Cons x ops)
  have fin: "finite (S :: u32 set)" for S by simp
  have i: "inv s" using Cons.prems(1) by (simp add: agrees_def)
  have "insert (op_root x) (held s) \<subseteq> held s \<union> op_root ` set (x # ops)" by auto
  then have "card (insert (op_root x) (held s)) \<le> cap"
    using Cons.prems(4) card_mono fin order.trans by metis
  then have a: "agrees (op_time x) (step x s) (ideal_step x m)"
    using agrees_step Cons.prems by simp
  have "held (step x s) \<union> op_root ` set ops \<subseteq> held s \<union> op_root ` set (x # ops)"
    using held_step [OF i] Cons.prems(3) by fastforce
  then have "card (held (step x s) \<union> op_root ` set ops) \<le> cap"
    using Cons.prems(4) card_mono fin order.trans by metis
  then show ?case using Cons.IH [OF a] Cons.prems by simp
qed simp

end

section \<open>The store implements the memory\<close>

definition flow_stamped :: "u64 \<Rightarrow> flow_store \<Rightarrow> bool" where
  "flow_stamped now st \<longleftrightarrow> (\<forall>e \<in> set (fl_entries st). fs_active e \<longrightarrow> fs_last_seen_ns e \<le> now)"

definition flow_held :: "flow_store \<Rightarrow> u32 set" where
  "flow_held st = fs_root_pid ` {e \<in> set (fl_entries st). fs_active e}"

lemma swept_active_set:
  assumes "swept now es es'" and "e \<in> set es'" and "fs_active e"
  shows "e \<in> set es"
proof -
  obtain k where "k < length es'" "es' ! k = e" using assms(2) by (auto simp: in_set_conv_nth)
  then show ?thesis using swept_active [OF assms(1), of k] swept_length [OF assms(1)] assms(3) by auto
qed

text \<open>The active entries after a touch: old ones, or the touched one.\<close>

lemma flow_touch_active:
  assumes "flow_wf st" and f: "keeps_key f" and e: "e \<in> set (fl_entries (flow_touch root now f st))"
    and "fs_active e"
  shows "e \<in> set (fl_entries st) \<or> (fs_root_pid e = root \<and> fs_last_seen_ns e = now)"
proof -
  obtain i st' where get: "flow_state_get root now st = (i, st')"
    by (cases "flow_state_get root now st")
  obtain es where sw: "swept now (fl_entries st) es" and i: "i < length es"
    and c: "(case flow_view now st root of
        Some e \<Rightarrow> es ! i = e \<and> live now e \<and> fs_root_pid e = root \<and> fl_entries st' = es
      | None \<Rightarrow> fl_entries st' = es[i := fresh_entry root now] \<and>
          (if all_live now st then i = cursor_slot st else \<not> live now (es ! i)))"
    using flow_state_get_slot [OF assms(1) get] by blast
  define old where "old = fl_entries st' ! i"
  have old: "fs_root_pid old = root" using c i
    by (auto simp: old_def fresh_entry_def split: option.splits)
  have "fl_entries (flow_touch root now f st) = es[i := f (old\<lparr>fs_last_seen_ns := now\<rparr>)]"
    using c by (auto simp: flow_touch_def get old_def Let_def split: option.splits)
  then have "e \<in> set es \<or> e = f (old\<lparr>fs_last_seen_ns := now\<rparr>)"
    using e set_update_subset_insert by fastforce
  then show ?thesis
    using swept_active_set [OF sw _ assms(4)] f old by (auto simp: keeps_key_def)
qed

lemma all_live_nth: "all_live now st \<longleftrightarrow> (\<forall>k < length (fl_entries st). live now (fl_entries st ! k))"
  by (simp add: all_live_def all_set_conv_all_nth)

lemma live_only_Some [simp]: "live_only now v = Some e \<longleftrightarrow> v = Some e \<and> live now e"
  by (auto simp: live_only_def split: option.splits)

lemma all_live_held:
  assumes "flow_wf st" and "all_live now st"
  shows "card (flow_held st) = FLOW_STATE_ENTRIES"
proof -
  let ?es = "fl_entries st"
  have w: "slots_wf ?es" and len: "length ?es = FLOW_STATE_ENTRIES"
    using assms(1) by (simp_all add: flow_wf_def slots_wf_def)
  have act: "fs_active (?es ! k)" if "k < length ?es" for k
    using assms(2) that live_active [of now] by (simp add: all_live_nth)
  then have "flow_held st = (\<lambda>k. fs_root_pid (?es ! k)) ` {..< length ?es}"
    by (auto simp: flow_held_def in_set_conv_nth image_iff)
  moreover have "inj_on (\<lambda>k. fs_root_pid (?es ! k)) {..< length ?es}"
    using act slots_wf_inj [OF w] by (auto simp: inj_on_def)
  ultimately show ?thesis by (simp add: card_image len)
qed

lemma flow_touch_room:
  assumes wf: "flow_wf st" and f: "keeps_key f" and "card (insert root (flow_held st)) \<le> FLOW_STATE_ENTRIES"
  shows "flow_view now (flow_touch root now f st) r =
    (if r = root then Some (touched root now f (flow_view now st root)) else flow_view now st r)"
proof -
  have "\<not> (flow_view now st root = None \<and> all_live now st)"
  proof
    assume a: "flow_view now st root = None \<and> all_live now st"
    then have "root \<notin> flow_held st"
      by (auto simp: flow_held_def flow_view_def find_live_None all_live_nth in_set_conv_nth)
    then have "card (insert root (flow_held st)) = Suc FLOW_STATE_ENTRIES"
      using all_live_held [OF wf, of now] a by simp
    then show False using assms(3) by simp
  qed
  then show ?thesis using flow_touch_spec(2) [OF wf f] by auto
qed

lemma flow_lookup_snd:
  assumes "flow_wf st"
  shows "flow_wf (snd (flow_state_lookup root now st))"
    and "flow_view now (snd (flow_state_lookup root now st)) r = flow_view now st r"
    and "swept now (fl_entries st) (fl_entries (snd (flow_state_lookup root now st)))"
    and "fst (flow_state_lookup root now st) = flow_view now st root"
  using flow_state_lookup_spec [OF assms, of root now]
  by (cases "flow_state_lookup root now st"; simp)+

lemma flow_view_later:
  assumes "flow_wf st" and "flow_stamped now st" and "now \<le> now'"
  shows "flow_view now' st r = live_only now' (flow_view now st r)"
proof -
  have w: "slots_wf (fl_entries st)" using assms(1) by (simp add: flow_wf_def)
  have "flow_view now' st r = Some e \<longleftrightarrow> live_only now' (flow_view now st r) = Some e" for e
  proof -
    have "live now (fl_entries st ! k)" if "k < length (fl_entries st)" "live now' (fl_entries st ! k)" for k
      using live_earlier [OF that(2) _ assms(3)] live_active [OF that(2)] assms(2) that(1)
      by (auto simp: flow_stamped_def)
    then show ?thesis
      unfolding flow_view_def live_only_Some find_live_Some [OF w] by blast
  qed
  then show ?thesis by (rule option_eq_iff)
qed

interpretation flow_memory: root_memory flow_wf flow_stamped flow_held flow_view flow_touch
  "\<lambda>root now st. snd (flow_state_lookup root now st)" FLOW_STATE_ENTRIES
proof unfold_locales
  fix s f root now
  assume s: "flow_wf s" and f: "keeps_key f"
  show "flow_wf (flow_touch root now f s)" by (rule flow_touch_spec(1) [OF s f])
  show "flow_held (flow_touch root now f s) \<subseteq> insert root (flow_held s)"
    using flow_touch_active [OF s f] by (auto simp: flow_held_def)
  show "flow_stamped now (flow_touch root now f s)" if "flow_stamped now s"
    using flow_touch_active [OF s f] that by (auto simp: flow_stamped_def)
  show "flow_view now (flow_touch root now f s) r =
      (if r = root then Some (touched root now f (flow_view now s root)) else flow_view now s r)"
    if "card (insert root (flow_held s)) \<le> FLOW_STATE_ENTRIES" for r
    by (rule flow_touch_room [OF s f that])
next
  fix s root now
  assume s: "flow_wf s"
  show "flow_wf (snd (flow_state_lookup root now s))" by (rule flow_lookup_snd(1) [OF s])
  show "flow_held (snd (flow_state_lookup root now s)) \<subseteq> flow_held s"
    using swept_active_set [OF flow_lookup_snd(3) [OF s]] by (auto simp: flow_held_def)
  show "flow_stamped now (snd (flow_state_lookup root now s))" if "flow_stamped now s"
    using swept_active_set [OF flow_lookup_snd(3) [OF s]] that by (auto simp: flow_stamped_def)
  show "flow_view now (snd (flow_state_lookup root now s)) r = flow_view now s r" for r
    by (rule flow_lookup_snd(2) [OF s])
next
  show "flow_stamped now' s" if "flow_stamped now s" "now \<le> now'" for s now now'
    using that by (auto simp: flow_stamped_def)
  show "flow_view now' s r = live_only now' (flow_view now s r)"
    if "flow_wf s" "flow_stamped now s" "now \<le> now'" for s now now' r
    by (rule flow_view_later [OF that])
qed

fun flow_step :: "flow_op \<Rightarrow> flow_store \<Rightarrow> flow_store" where
  "flow_step (Touch root now f) st = flow_touch root now f st"
| "flow_step (Lookup root now) st = snd (flow_state_lookup root now st)"

lemma flow_step_memory: "flow_memory.step = flow_step"
proof (intro ext)
  show "flow_memory.step x st = flow_step x st" for x st by (cases x) simp_all
qed

lemma init_flow_facts:
  "flow_wf init_flow_store" "flow_held init_flow_store = {}" "flow_stamped now init_flow_store"
  "flow_view now init_flow_store r = None"
  by (auto simp: init_flow_store_def flow_wf_def slots_wf_def flow_held_def flow_stamped_def
      flow_view_def find_live_None)

section \<open>Properties\<close>

text \<open>
  C5.  The flow memory is a map with expiry: from the empty store, after any run of touches and lookups
  in time order on at most 256 different roots, a lookup at a later time returns exactly what an
  unbounded map of the same run holds for that root, unless it has been idle for more than the
  window.  Nothing is lost to the fixed array, the shared slots or the clearing of expired entries.
\<close>

theorem flow_store_refines_map:
  assumes "sorted (map op_time ops)" and "\<forall>x \<in> set ops. op_ok x"
    and "card (op_root ` set ops) \<le> FLOW_STATE_ENTRIES"
    and "\<forall>x \<in> set ops. op_time x \<le> now"
  shows "fst (flow_state_lookup root now (fold flow_step ops init_flow_store)) =
    live_only now (fold ideal_step ops Map.empty root)"
proof -
  have start: "flow_memory.agrees 0 init_flow_store Map.empty"
    by (simp add: flow_memory.agrees_def init_flow_facts)
  have last: "last (0 # map op_time ops) \<le> now"
    using assms(4) by (induction ops rule: rev_induct) auto
  have "flow_memory.agrees (last (0 # map op_time ops)) (fold flow_step ops init_flow_store)
      (fold ideal_step ops Map.empty)"
    using flow_memory.run_agrees [OF start, of ops] assms(1-3)
    by (simp add: init_flow_facts flow_step_memory)
  then have "flow_memory.agrees now (fold flow_step ops init_flow_store) (fold ideal_step ops Map.empty)"
    using flow_memory.agrees_later last by blast
  then show ?thesis by (simp add: flow_memory.agrees_def flow_lookup_snd(4))
qed

theorem flow_store_refines_map_witness:
  "map_option fs_sensitive_read_seen (fst (flow_state_lookup 7 120000000000
     (fold flow_step [Touch 7 0 (note_sensitive_read zero_event), Touch 9 5 (note_connect zero_event),
        Lookup 9 6] init_flow_store))) = Some True"
  using flow_store_refines_map [of "[Touch 7 0 (note_sensitive_read zero_event),
      Touch 9 5 (note_connect zero_event), Lookup 9 6]" 120000000000 7]
  by (simp add: FLOW_STATE_ENTRIES_def touched_def note_sensitive_read_def fresh_entry_def live_only_def
      live_def flow_entry_expired_def flow_window_ns_def FLOW_WINDOW_SECONDS_def NS_PER_SECOND_def)

lemma path_basename_last: "path_basename path = rev (takeWhile (\<lambda>c. c \<noteq> CHR ''/'') (rev path))"
  unfolding basename_last_component [symmetric] by (simp add: path_basename_def basename_ptr_def)

text \<open>Being named in a list without the empty text: by command or by the target's last component.\<close>

lemma command_named:
  assumes "[] \<notin> set names"
  shows "command_name_in_list comm (Some target) names \<longleftrightarrow>
    comm \<in> set names \<or> rev (takeWhile (\<lambda>c. c \<noteq> CHR ''/'') (rev target)) \<in> set names"
  using assms
  by (cases "target = []")
    (auto simp: command_name_in_list_def comm_in_list_def list_ex_iff path_basename_last [symmetric])

lemma shell_tool_named:
  "is_shell_command comm (Some target) \<longleftrightarrow>
    {comm, rev (takeWhile (\<lambda>c. c \<noteq> CHR ''/'') (rev target))} \<inter> {''sh'', ''bash'', ''dash'', ''zsh''} \<noteq> {}"
  "is_transfer_command comm (Some target) \<longleftrightarrow>
    {comm, rev (takeWhile (\<lambda>c. c \<noteq> CHR ''/'') (rev target))} \<inter>
      {''curl'', ''wget'', ''nc'', ''ncat'', ''socat'', ''scp'', ''rsync'', ''rclone'', ''busybox'',
       ''python'', ''python3'', ''perl''} \<noteq> {}"
proof -
  have named: "{a, b} \<inter> N \<noteq> {} \<longleftrightarrow> a \<in> N \<or> b \<in> N" for a b :: string and N by blast
  have s: "set shells = {''sh'', ''bash'', ''dash'', ''zsh''}"
    and t: "set transfer_tools = {''curl'', ''wget'', ''nc'', ''ncat'', ''socat'', ''scp'', ''rsync'',
      ''rclone'', ''busybox'', ''python'', ''python3'', ''perl''}"
    by (simp_all only: shells_def transfer_tools_def list.set)
  show "is_shell_command comm (Some target) \<longleftrightarrow>
    {comm, rev (takeWhile (\<lambda>c. c \<noteq> CHR ''/'') (rev target))} \<inter> {''sh'', ''bash'', ''dash'', ''zsh''} \<noteq> {}"
    unfolding named is_shell_command_def s [symmetric] by (rule command_named) (simp add: shells_def)
  show "is_transfer_command comm (Some target) \<longleftrightarrow>
    {comm, rev (takeWhile (\<lambda>c. c \<noteq> CHR ''/'') (rev target))} \<inter>
      {''curl'', ''wget'', ''nc'', ''ncat'', ''socat'', ''scp'', ''rsync'', ''rclone'', ''busybox'',
       ''python'', ''python3'', ''perl''} \<noteq> {}"
    unfolding named is_transfer_command_def t [symmetric] by (rule command_named) (simp add: transfer_tools_def)
qed

text \<open>The entry of a root after an event that a shell, a tool or a public connection is seen in.\<close>

definition noted :: "bool \<Rightarrow> bool \<Rightarrow> bool \<Rightarrow> u32 \<Rightarrow> u64 \<Rightarrow> flow_state_entry \<Rightarrow> flow_state_entry" where
  "noted shell tool public pid now old = old\<lparr>
     fs_last_seen_ns := now,
     fs_shell_seen := (fs_shell_seen old \<or> shell),
     fs_shell_pid := (if shell then pid else fs_shell_pid old),
     fs_transfer_exec_seen := (fs_transfer_exec_seen old \<or> tool),
     fs_transfer_pid := (if tool then pid else fs_transfer_pid old),
     fs_public_connect_seen := (fs_public_connect_seen old \<or> public)\<rparr>"

lemma note_noted:
  "touched root now (note_exec e) v =
    noted (is_shell_command (e_comm e) (Some (e_target e))) (is_transfer_command (e_comm e) (Some (e_target e)))
      False (e_pid e) now (case v of Some x \<Rightarrow> x | None \<Rightarrow> fresh_entry root now)"
  "touched root now (note_connect e) v =
    noted False False (nc_scope (classify_net_destination e) = ''public'') (e_pid e) now
      (case v of Some x \<Rightarrow> x | None \<Rightarrow> fresh_entry root now)"
  by (simp_all add: touched_def note_exec_def note_connect_def noted_def Let_def)

text \<open>
  C32.  What an execution or a connection leaves in the flow memory.  Only the entry of the event's root
  (the grandparent, else the parent, else the process itself) changes: it is the live entry, or a
  fresh one if there is none, with the event's time and exactly these marks added: a shell, with its
  process, for an execution whose command or last path component is one of the four shells; a
  transfer tool, with its process, for one of the twelve tools; a public connection for a connection
  of public scope.  Every other live root keeps its entry, except that a new root evicts the one
  under the cursor when all 256 slots hold live entries.  No root ever occupies two slots.
\<close>

theorem flow_observe_effect:
  fixes e :: edr_event and proc :: process_context
  assumes "flow_wf st" and "e_type e = EDR_EVENT_EXEC \<or> e_type e = EDR_EVENT_CONNECT"
  shows "let root = hd (filter (\<lambda>p. p \<noteq> 0) [pc_gppid proc, pc_ppid proc] @ [e_pid e]);
      now = e_timestamp_ns e; exec = (e_type e = EDR_EVENT_EXEC);
      names = {e_comm e, rev (takeWhile (\<lambda>c. c \<noteq> CHR ''/'') (rev (e_target e)))};
      shell = (names \<inter> {''sh'', ''bash'', ''dash'', ''zsh''} \<noteq> {});
      tool = (names \<inter> {''curl'', ''wget'', ''nc'', ''ncat'', ''socat'', ''scp'', ''rsync'', ''rclone'', ''busybox'',
        ''python'', ''python3'', ''perl''} \<noteq> {});
      public = (nc_scope (classify_net_destination e) = ''public'');
      old = (case flow_view now st root of Some x \<Rightarrow> x
        | None \<Rightarrow> zero_entry\<lparr>fs_active := True, fs_root_pid := root\<rparr>);
      st' = flow_state_observe_event e proc st
    in flow_wf st' \<and> flow_view now st' r =
      (if r = root then Some (old\<lparr>fs_last_seen_ns := now,
          fs_shell_seen := (fs_shell_seen old \<or> exec \<and> shell),
          fs_shell_pid := (if exec \<and> shell then e_pid e else fs_shell_pid old),
          fs_transfer_exec_seen := (fs_transfer_exec_seen old \<or> exec \<and> tool),
          fs_transfer_pid := (if exec \<and> tool then e_pid e else fs_transfer_pid old),
          fs_public_connect_seen := (fs_public_connect_seen old \<or> \<not> exec \<and> public)\<rparr>)
       else if flow_view now st root = None \<and> all_live now st \<and>
               fs_root_pid (fl_entries st ! cursor_slot st) = r then None
       else flow_view now st r)"
proof -
  let ?f = "if e_type e = EDR_EVENT_EXEC then note_exec e else note_connect e"
  have f: "keeps_key ?f" by simp
  have st': "flow_state_observe_event e proc st =
      flow_touch (flow_root_pid e proc) (e_timestamp_ns e) ?f st"
    using assms(2) by (auto simp: flow_state_observe_event_def)
  have root: "hd (filter (\<lambda>p. p \<noteq> 0) [pc_gppid proc, pc_ppid proc] @ [e_pid e]) = flow_root_pid e proc"
    by (simp add: flow_root_pid_def)
  note spec = flow_touch_spec [OF assms(1) f, where root = "flow_root_pid e proc" and now = "e_timestamp_ns e"]
  show ?thesis
    unfolding Let_def root st' shell_tool_named [symmetric]
    using spec by (auto simp: note_noted noted_def fresh_entry_def split: option.split)
qed

theorem flow_observe_effect_witness:
  "map_option fs_shell_pid (flow_view 3 (flow_state_observe_event
     (zero_event\<lparr>e_type := EDR_EVENT_EXEC, e_pid := 8, e_timestamp_ns := 3, e_comm := ''bash''\<rparr>)
     (zero_context\<lparr>pc_ppid := 5\<rparr>) init_flow_store) 5) = Some 8"
  using flow_observe_effect [of init_flow_store
      "zero_event\<lparr>e_type := EDR_EVENT_EXEC, e_pid := 8, e_timestamp_ns := 3, e_comm := ''bash''\<rparr>"
      "zero_context\<lparr>pc_ppid := 5\<rparr>" 5]
  by (simp add: init_flow_facts flow_root_pid_def zero_context_def zero_event_def is_shell_command_def is_transfer_command_def command_name_in_list_def
      comm_in_list_def shells_def transfer_tools_def Let_def)

end
