(* ===== verification/Evaluate.thy ===== *)
theory Evaluate
  imports FlowState
begin

text \<open>
  The decision of the daemon for one event (\<open>dev/host/asic_main.c\<close>): the network flow rules of
  \<open>evaluate_connect_flow\<close>, which look at the flow memory, and \<open>evaluate_event\<close>, which tries the
  detection rules in order.
\<close>

section \<open>Flow rules\<close>

definition flow_transfer_allowlisted :: "edr_rules \<Rightarrow> edr_event \<Rightarrow> process_context \<Rightarrow> bool" where
  "flow_transfer_allowlisted r e proc =
     (scan_down (\<lambda>i. let value = vt_values (ru_flow_allow_transfer r) ! i in
        if (e_comm e \<noteq> [] \<and> e_comm e = value) \<or> (e_target e \<noteq> [] \<and> e_target e = value) \<or>
           (pc_exe proc \<noteq> [] \<and> pc_exe proc = value)
        then Some () else None) (vt_count (ru_flow_allow_transfer r)) \<noteq> None)"

definition process_tree_has_shell_context :: "edr_event \<Rightarrow> process_context \<Rightarrow> bool" where
  "process_tree_has_shell_context e proc \<longleftrightarrow>
     is_shell_command (e_comm e) (Some (e_target e)) \<or>
     is_shell_command (pc_parent_comm proc) None \<or>
     is_shell_command (pc_grandparent_comm proc) None"

definition make_controlled_flow_finding ::
  "edr_rules \<Rightarrow> edr_severity \<Rightarrow> string \<Rightarrow> string \<Rightarrow> u32 \<Rightarrow> string \<Rightarrow> u32 \<Rightarrow> edr_finding option" where
  "make_controlled_flow_finding r default_severity rule_id reason score flow_reasons flow_root =
     (case make_controlled_finding r default_severity rule_id reason of
        None \<Rightarrow> None
      | Some finding \<Rightarrow> Some (finding\<lparr>f_has_flow := True, f_flow_id := Some (Rid_Lit rule_id),
          f_flow_score := score, f_flow_reasons := Some flow_reasons,
          f_flow_window_seconds := FLOW_WINDOW_SECONDS, f_flow_root_pid := flow_root\<rparr>))"

text \<open>The four calls of \<open>make_controlled_flow_finding\<close>, in the order of the code.\<close>

definition sensitive_flow :: "edr_rules \<Rightarrow> bool \<Rightarrow> u32 \<Rightarrow> edr_finding option" where
  "sensitive_flow r suspicious_context root_pid =
     make_controlled_flow_finding r
       (default_flow_rule_severity r FLOW_RULE_SENSITIVE_READ_THEN_PUBLIC_NET)
       FLOW_RULE_SENSITIVE_READ_THEN_PUBLIC_NET
       ''sensitive file access followed by public network transfer''
       (default_flow_rule_score r FLOW_RULE_SENSITIVE_READ_THEN_PUBLIC_NET suspicious_context)
       (if suspicious_context
        then ''sensitive_read,transfer_tool,public_destination,suspicious_context''
        else ''sensitive_read,transfer_tool,public_destination'') root_pid"

definition idle_flow :: "edr_rules \<Rightarrow> bool \<Rightarrow> u32 \<Rightarrow> edr_finding option" where
  "idle_flow r allowlisted root_pid =
     make_controlled_flow_finding r
       (if allowlisted then EDR_SEV_INFO
        else default_flow_rule_severity r FLOW_RULE_IDLE_PUBLIC_TRANSFER_TOOL)
       FLOW_RULE_IDLE_PUBLIC_TRANSFER_TOOL
       ''idle user session with non-interactive public transfer tool''
       (if allowlisted then 30
        else default_flow_rule_score r FLOW_RULE_IDLE_PUBLIC_TRANSFER_TOOL False)
       (if allowlisted
        then ''user_idle,no_tty,non_interactive,transfer_tool,public_destination,flow_allow_transfer''
        else ''user_idle,no_tty,non_interactive,transfer_tool,public_destination'') root_pid"

definition shell_flow :: "edr_rules \<Rightarrow> u32 \<Rightarrow> edr_finding option" where
  "shell_flow r root_pid =
     make_controlled_flow_finding r
       (default_flow_rule_severity r FLOW_RULE_SHELL_DOWNLOADER_PUBLIC_NET)
       FLOW_RULE_SHELL_DOWNLOADER_PUBLIC_NET
       ''shell-launched transfer tool connected to public network''
       (default_flow_rule_score r FLOW_RULE_SHELL_DOWNLOADER_PUBLIC_NET False)
       ''shell_context,transfer_tool,public_destination'' root_pid"

definition no_tty_flow :: "edr_rules \<Rightarrow> bool \<Rightarrow> u32 \<Rightarrow> edr_finding option" where
  "no_tty_flow r allowlisted root_pid =
     make_controlled_flow_finding r
       (if allowlisted then EDR_SEV_INFO
        else default_flow_rule_severity r FLOW_RULE_NO_TTY_PUBLIC_TRANSFER_TOOL)
       FLOW_RULE_NO_TTY_PUBLIC_TRANSFER_TOOL
       ''transfer tool without TTY connected to public network''
       (if allowlisted then 20
        else default_flow_rule_score r FLOW_RULE_NO_TTY_PUBLIC_TRANSFER_TOOL False)
       (if allowlisted then ''no_tty,transfer_tool,public_destination,flow_allow_transfer''
        else ''no_tty,transfer_tool,public_destination'') root_pid"

definition user_idle_context :: "edr_rules \<Rightarrow> process_context \<Rightarrow> bool" where
  "user_idle_context r proc \<longleftrightarrow>
     pc_user_idle_seconds proc \<noteq> USER_IDLE_UNKNOWN_SECONDS \<and>
     ru_user_idle_threshold_seconds r \<le> pc_user_idle_seconds proc"

text \<open>
  \<open>evaluate_connect_flow\<close>: the finding, if any, and the flow memory after the lookup.  The idle and
  the no-terminal rules return whatever their call gives, the other two fall through when their rule
  is disabled.
\<close>

definition evaluate_connect_flow ::
  "edr_rules \<Rightarrow> edr_event \<Rightarrow> process_context \<Rightarrow> flow_store \<Rightarrow> edr_finding option \<times> flow_store" where
  "evaluate_connect_flow r e proc st =
     (if e_type e \<noteq> EDR_EVENT_CONNECT \<or> nc_scope (classify_net_destination e) \<noteq> ''public'' \<or>
         \<not> is_transfer_command (e_comm e) (Some (e_target e))
      then (None, st)
      else
        (let root_pid = flow_root_pid e proc;
             (entry, st) = flow_state_lookup root_pid (e_timestamp_ns e) st;
             shell_context = process_tree_has_shell_context e proc \<or>
               (case entry of Some en \<Rightarrow> fs_shell_seen en | None \<Rightarrow> False);
             sensitive_read_context =
               (case entry of Some en \<Rightarrow> fs_sensitive_read_seen en | None \<Rightarrow> False);
             first = (if sensitive_read_context
                      then sensitive_flow r (shell_context \<or> \<not> pc_has_tty proc) root_pid else None)
         in (case first of
               Some f \<Rightarrow> Some f
             | None \<Rightarrow>
                 if user_idle_context r proc \<and> \<not> pc_has_tty proc \<and> \<not> pc_interactive_session proc
                 then idle_flow r (flow_transfer_allowlisted r e proc) root_pid
                 else (case (if shell_context then shell_flow r root_pid else None) of
                         Some f \<Rightarrow> Some f
                       | None \<Rightarrow> if \<not> pc_has_tty proc
                                 then no_tty_flow r (flow_transfer_allowlisted r e proc) root_pid
                                 else None), st)))"

section \<open>The decision\<close>

definition observed :: edr_finding where
  "observed = make_finding EDR_SEV_INFO (Rid_Lit ''event.observed'') ''observed''"

text \<open>A memory rule: its finding, or the plain observation when it is disabled.\<close>

definition memory_rule :: "edr_rules \<Rightarrow> edr_severity \<Rightarrow> string \<Rightarrow> string \<Rightarrow> edr_finding" where
  "memory_rule r severity rule_id reason =
     (case make_controlled_finding r severity rule_id reason of Some f \<Rightarrow> f | None \<Rightarrow> observed)"

text \<open>The part of \<open>evaluate_event\<close> before the flow rules; \<open>None\<close> goes on to them.\<close>

definition evaluate_local :: "edr_rules \<Rightarrow> edr_event \<Rightarrow> edr_finding option" where
  "evaluate_local r e =
     (case (if e_type e = EDR_EVENT_EXEC then is_suspicious_exec r (e_target e) else None) of
        Some (severity, rule_id) \<Rightarrow>
          Some (make_finding severity rule_id ''suspicious process execution'')
      | None \<Rightarrow>
      if e_type e = EDR_EVENT_MPROTECT \<and> has_flag (e_prot e) PROT_EXEC \<and>
         \<not> comm_allowed_for_jit r (e_comm e)
      then (if has_flag (e_prot e) PROT_WRITE
            then Some (memory_rule r EDR_SEV_CRITICAL ''mem.rwx_mprotect'' ''RWX memory request'')
            else Some (memory_rule r EDR_SEV_WARN ''mem.exec_mprotect''
                         ''mprotect executable memory request''))
      else if e_type e = EDR_EVENT_MMAP \<and> has_flag (e_prot e) PROT_EXEC \<and>
         \<not> comm_allowed_for_jit r (e_comm e) \<and> has_flag (e_prot e) PROT_WRITE
      then Some (memory_rule r EDR_SEV_CRITICAL ''mem.rwx_mmap'' ''RWX memory mapping'')
      else if e_type e = EDR_EVENT_MMAP \<and> has_flag (e_prot e) PROT_EXEC \<and>
         \<not> comm_allowed_for_jit r (e_comm e) \<and> has_flag (e_flags e) MAP_ANONYMOUS
      then Some (memory_rule r (ru_anon_exec_mmap_severity r) ''mem.anon_exec_mmap''
                   ''anonymous executable memory mapping'')
      else if e_type e = EDR_EVENT_OPENAT
      then (case (if opens_for_write (e_flags e) then is_sensitive_write_file r (e_target e) else None) of
              Some (severity, rule_id) \<Rightarrow>
                Some (make_finding severity rule_id ''sensitive file opened for write'')
            | None \<Rightarrow>
                (case is_sensitive_read_file r (e_target e) of
                   Some (severity, rule_id) \<Rightarrow>
                     Some (make_finding severity rule_id ''sensitive file access'')
                 | None \<Rightarrow> None))
      else None)"

definition evaluate_event ::
  "edr_rules \<Rightarrow> edr_event \<Rightarrow> process_context \<Rightarrow> flow_store \<Rightarrow> edr_finding \<times> flow_store" where
  "evaluate_event r e proc st =
     (case evaluate_local r e of
        Some f \<Rightarrow> (f, st)
      | None \<Rightarrow>
          (case evaluate_connect_flow r e proc st of
             (Some f, st) \<Rightarrow> (f, st)
           | (None, st) \<Rightarrow>
               (case (if e_type e = EDR_EVENT_CONNECT then is_suspicious_port r (event_dst_port e)
                      else None) of
                  Some (severity, rule_id) \<Rightarrow>
                    (make_finding severity rule_id ''connection to suspicious port'', st)
                | None \<Rightarrow> (observed, st))))"

section \<open>Controlled findings\<close>

text \<open>
  A finding the rule controls let through: its id is not disabled, and its severity is the effective
  one for the severity its rule is written with (\<open>a\<close>: the transfer is allow-listed).
\<close>

definition controlled :: "edr_rules \<Rightarrow> bool \<Rightarrow> edr_finding \<Rightarrow> bool" where
  "controlled r a f \<longleftrightarrow>
     rule_controls_allow r (rule_text r (f_rule_id f)) (declared_severity r a (f_rule_id f)) =
       Some (f_severity f) \<and>
     (f_has_flow f \<longrightarrow> f_flow_id f = Some (f_rule_id f))"

named_theorems finding_simps \<open>the fields of findings\<close>

lemma make_finding_fields [finding_simps, simp]:
  "f_severity (make_finding s i x) = s" "f_rule_id (make_finding s i x) = i"
  "f_reason (make_finding s i x) = x" "\<not> f_has_flow (make_finding s i x)"
  "f_flow_id (make_finding s i x) = None" "f_flow_root_pid (make_finding s i x) = 0"
  by (simp_all add: make_finding_def)

lemma make_controlled_finding_Some [finding_simps]:
  "make_controlled_finding r d i x = Some f \<longleftrightarrow>
     (\<exists>s. rule_controls_allow r i d = Some s \<and> f = make_finding s (Rid_Lit i) x)"
  by (auto simp: make_controlled_finding_def split: option.splits)

lemma make_controlled_finding_None [finding_simps]:
  "make_controlled_finding r d i x = None \<longleftrightarrow> rule_id_disabled r i"
  by (simp add: make_controlled_finding_def rule_controls_allow_def)

lemma flow_finding_None [finding_simps]:
  "make_controlled_flow_finding r d i x sc re root = None \<longleftrightarrow> rule_id_disabled r i"
  by (simp add: make_controlled_flow_finding_def make_controlled_finding_None split: option.split)
    (metis make_controlled_finding_None not_None_eq)

lemma flow_finding_Some:
  assumes "make_controlled_flow_finding r d i x sc re root = Some f"
  shows "\<not> rule_id_disabled r i \<and> f_rule_id f = Rid_Lit i \<and>
    f_severity f = effective_rule_severity r i d \<and> f_flow_id f = Some (Rid_Lit i) \<and>
    f_flow_score f = sc \<and> f_flow_root_pid f = root \<and> f_has_flow f \<and> f_reason f = x"
  using assms
  by (auto simp: make_controlled_flow_finding_def make_controlled_finding_Some
      rule_controls_allow_def split: option.splits if_splits)

lemma flow_finding_controlled:
  assumes "make_controlled_flow_finding r d i x sc re root = Some f"
    and "declared_severity r a (Rid_Lit i) = d"
  shows "controlled r a f \<and> f_rule_id f = Rid_Lit i"
  using flow_finding_Some [OF assms(1)] assms(2) by (simp add: controlled_def rule_controls_allow_def)

lemmas flow_rule_defs = sensitive_flow_def idle_flow_def shell_flow_def no_tty_flow_def

lemma flow_rules_None [finding_simps]:
  "sensitive_flow r b root = None \<longleftrightarrow> rule_id_disabled r FLOW_RULE_SENSITIVE_READ_THEN_PUBLIC_NET"
  "idle_flow r b root = None \<longleftrightarrow> rule_id_disabled r FLOW_RULE_IDLE_PUBLIC_TRANSFER_TOOL"
  "shell_flow r root = None \<longleftrightarrow> rule_id_disabled r FLOW_RULE_SHELL_DOWNLOADER_PUBLIC_NET"
  "no_tty_flow r b root = None \<longleftrightarrow> rule_id_disabled r FLOW_RULE_NO_TTY_PUBLIC_TRANSFER_TOOL"
  by (simp_all add: flow_rule_defs flow_finding_None)

lemma flow_rules_Some:
  "sensitive_flow r b root = Some f \<Longrightarrow> controlled r a f \<and>
     f_rule_id f = Rid_Lit FLOW_RULE_SENSITIVE_READ_THEN_PUBLIC_NET"
  "idle_flow r b root = Some f \<Longrightarrow> controlled r b f \<and>
     f_rule_id f = Rid_Lit FLOW_RULE_IDLE_PUBLIC_TRANSFER_TOOL"
  "shell_flow r root = Some f \<Longrightarrow> controlled r a f \<and>
     f_rule_id f = Rid_Lit FLOW_RULE_SHELL_DOWNLOADER_PUBLIC_NET"
  "no_tty_flow r b root = Some f \<Longrightarrow> controlled r b f \<and>
     f_rule_id f = Rid_Lit FLOW_RULE_NO_TTY_PUBLIC_TRANSFER_TOOL"
  unfolding flow_rule_defs by (erule flow_finding_controlled, simp only: declared_flow)+

lemma connect_flow_controlled:
  assumes "evaluate_connect_flow r e proc st = (Some f, st')"
  shows "controlled r (flow_transfer_allowlisted r e proc) f"
  using assms flow_rules_Some
  by (auto simp: evaluate_connect_flow_def Let_def split: if_splits option.splits prod.splits)

lemma scan_controlled:
  assumes "is_suspicious_exec r target = Some (s, x) \<or> is_sensitive_read_file r target = Some (s, x) \<or>
    is_sensitive_write_file r target = Some (s, x) \<or> is_suspicious_port r port = Some (s, x)"
  shows "controlled r a (make_finding s x reason)"
  using scans_enabled [OF assms] by (simp add: controlled_def rule_controls_allow_def)

lemmas scan_controlled_rules = scan_controlled [OF disjI1]
  scan_controlled [OF disjI2 [OF disjI1]] scan_controlled [OF disjI2 [OF disjI2 [OF disjI1]]]
  scan_controlled [OF disjI2 [OF disjI2 [OF disjI2]]]

lemma memory_rule_cases:
  "memory_rule r s i x = (if rule_id_disabled r i then observed
     else make_finding (effective_rule_severity r i s) (Rid_Lit i) x)"
  by (simp add: memory_rule_def make_controlled_finding_def rule_controls_allow_def)

lemma memory_rule_controlled:
  "declared_severity r a (Rid_Lit i) = s \<Longrightarrow> \<not> controlled r a (memory_rule r s i x) \<Longrightarrow>
     memory_rule r s i x = observed"
  by (auto simp: memory_rule_cases controlled_def rule_controls_allow_def)

lemmas memory_rules_controlled = declared_memory [THEN memory_rule_controlled]

lemma evaluate_local_controlled:
  assumes "evaluate_local r e = Some f"
  shows "f = observed \<or> controlled r a f"
  using assms
  by (auto simp: evaluate_local_def split: if_splits option.splits
      dest: scan_controlled_rules simp: memory_rules_controlled)

lemma evaluate_event_controlled:
  assumes "evaluate_event r e proc st = (f, st')"
  shows "f = observed \<or> controlled r (flow_transfer_allowlisted r e proc) f"
  using assms
  by (auto simp: evaluate_event_def split: option.splits prod.splits if_splits
      dest: evaluate_local_controlled connect_flow_controlled scan_controlled_rules)

text \<open>The allow list holds the command, the target or the executable of the transfer, by exact text.\<close>

lemma allowlisted_rows:
  assumes "rules_wf r"
  shows "flow_transfer_allowlisted r e proc \<longleftrightarrow>
    set (vt_rows (ru_flow_allow_transfer r)) \<inter> ({e_comm e, e_target e, pc_exe proc} - {[]}) \<noteq> {}"
proof -
  let ?t = "ru_flow_allow_transfer r"
  have n: "vt_count ?t \<le> length (vt_values ?t)" using assms by (simp add: rules_wf_def vt_wf_def)
  have "flow_transfer_allowlisted r e proc \<longleftrightarrow> (\<exists>i < vt_count ?t.
      vt_values ?t ! i \<in> {e_comm e, e_target e, pc_exe proc} - {[]})"
    unfolding flow_transfer_allowlisted_def scan_down_None Let_def by (auto split: if_splits)
  also have "\<dots> \<longleftrightarrow> (\<exists>v \<in> set (vt_rows ?t). v \<in> {e_comm e, e_target e, pc_exe proc} - {[]})"
    unfolding vt_rows_def nth_image [OF n, symmetric] by (simp add: Bex_def image_iff) blast
  finally show ?thesis by blast
qed

section \<open>Properties\<close>

lemma observed_no_rule [simp]: "f_severity observed = EDR_SEV_INFO"
  by (simp add: observed_def)

text \<open>
  C3.  Rule controls are always honoured, and no severity is made up: whatever rule produced it, a
  finding other than the plain observation never has a disabled rule id; its severity is exactly the
  override set for that id, and without one exactly the severity the rule is written with: the
  severity of the table row it points to, or the table of the memory and flow rules (by profile, and
  lowered for the two terminal rules when the transfer's command, target or executable is on the
  allow list).
\<close>

theorem finding_respects_controls:
  assumes "rules_wf r" and "evaluate_event r e proc st = (f, st')" and "f \<noteq> observed"
  defines "rid \<equiv> rule_text r (f_rule_id f)"
    and "allowlisted \<equiv> set (vt_rows (ru_flow_allow_transfer r)) \<inter>
      ({e_comm e, e_target e, pc_exe proc} - {[]}) \<noteq> {}"
  shows "\<not> rule_id_disabled r rid \<and>
    f_severity f = (case override_map r rid of Some s \<Rightarrow> s
                    | None \<Rightarrow> declared_severity r allowlisted (f_rule_id f))"
proof -
  have "controlled r allowlisted f"
    using evaluate_event_controlled [OF assms(2)] assms(3)
    unfolding allowlisted_def allowlisted_rows [OF assms(1), symmetric] by blast
  then show ?thesis
    by (auto simp: controlled_def rid_def rule_controls_allow_def effective_rule_severity_map [OF assms(1)]
        split: if_splits option.splits)
qed

text \<open>What a memory event asks for, and the rule and severity meant for it.\<close>

definition memory_request :: "edr_rules \<Rightarrow> edr_event \<Rightarrow> (string \<times> edr_severity) option" where
  "memory_request r e =
     (if e_comm e \<in> set (vt_rows (ru_jit_allow_comm r)) \<or> \<not> bit (e_prot e) 2 then None
      else if bit (e_prot e) 1
      then Some (if e_type e = EDR_EVENT_MPROTECT then ''mem.rwx_mprotect'' else ''mem.rwx_mmap'',
                 EDR_SEV_CRITICAL)
      else if e_type e = EDR_EVENT_MPROTECT then Some (''mem.exec_mprotect'', EDR_SEV_WARN)
      else if bit (e_flags e) 5 then Some (''mem.anon_exec_mmap'', ru_anon_exec_mmap_severity r)
      else None)"

definition memory_reason :: "edr_event \<Rightarrow> string" where
  "memory_reason e =
     (if e_type e = EDR_EVENT_MPROTECT
      then (if bit (e_prot e) 1 then ''RWX memory request'' else ''mprotect executable memory request'')
      else (if bit (e_prot e) 1 then ''RWX memory mapping''
            else ''anonymous executable memory mapping''))"

lemma evaluate_local_memory:
  assumes "e_type e = EDR_EVENT_MPROTECT \<or> e_type e = EDR_EVENT_MMAP"
    and jit: "comm_allowed_for_jit r (e_comm e) \<longleftrightarrow> e_comm e \<in> set (vt_rows (ru_jit_allow_comm r))"
  shows "evaluate_local r e = (case memory_request r e of None \<Rightarrow> None
    | Some (i, s) \<Rightarrow> Some (memory_rule r s i (memory_reason e)))"
proof -
  have "e_type e = 2 \<or> e_type e = 3" using assms(1) by simp
  then show ?thesis
    unfolding evaluate_local_def memory_request_def mask_flag_bits jit memory_reason_def
    by (elim disjE) simp_all
qed

lemma memory_event_evaluation:
  assumes "e_type e = EDR_EVENT_MPROTECT \<or> e_type e = EDR_EVENT_MMAP"
    and "length (e_comm e) < COMM_LEN"
    and "\<forall>v \<in> set (vt_rows (ru_jit_allow_comm r)). length v < COMM_LEN"
  shows "\<exists>f. evaluate_event r e proc st = (f, st) \<and>
    (case memory_request r e of
       None \<Rightarrow> f = observed
     | Some (i, s) \<Rightarrow> f = observed \<and> rule_id_disabled r i \<or>
         \<not> rule_id_disabled r i \<and> f_rule_id f = Rid_Lit i \<and> f_severity f = effective_rule_severity r i s)"
proof -
  note l = evaluate_local_memory [OF assms(1) comm_allowed_rows [OF assms(2,3)]]
  have "e_type e \<noteq> EDR_EVENT_CONNECT" using assms(1) by auto
  then have n: "evaluate_connect_flow r e proc st = (None, st)" by (simp add: evaluate_connect_flow_def)
  show ?thesis
  proof (cases "memory_request r e")
    case None
    then show ?thesis using l n \<open>e_type e \<noteq> _\<close> by (simp add: evaluate_event_def)
  next
    case (Some p)
    then show ?thesis using l by (cases p) (simp add: evaluate_event_def memory_rule_cases)
  qed
qed

text \<open>
  C13.  Memory events: the verdict depends on the executable, writable and anonymous bits and the JIT
  allow list only.  Writable and executable memory is the critical rule of its system call,
  executable memory alone is reported for \<open>mprotect\<close> and for anonymous mappings, everything else is
  a plain observation; a disabled rule also gives the plain observation.  The flow memory is not
  touched.
\<close>

theorem memory_event_verdict:
  assumes "e_type e = EDR_EVENT_MPROTECT \<or> e_type e = EDR_EVENT_MMAP"
    and "length (e_comm e) < COMM_LEN"
    and "\<forall>v \<in> set (vt_rows (ru_jit_allow_comm r)). length v < COMM_LEN"
  shows "\<exists>f. evaluate_event r e proc st = (f, st) \<and>
    (case memory_request r e of
       None \<Rightarrow> f = observed
     | Some (i, s) \<Rightarrow> f = observed \<and> rule_id_disabled r i \<or>
         \<not> rule_id_disabled r i \<and> f_rule_id f = Rid_Lit i \<and> f_severity f = effective_rule_severity r i s)"
  using assms by (rule memory_event_evaluation)

definition rwx_event :: edr_event where
  "rwx_event = zero_event\<lparr>e_type := EDR_EVENT_MPROTECT, e_prot := 7, e_comm := ''loader''\<rparr>"

lemma default_jit_fits: "\<forall>v \<in> set (vt_rows (ru_jit_allow_comm init_default_rules)). length v < COMM_LEN"
  by (simp add: init_default_tables default_jit_allow_def)

lemma rwx_request: "memory_request init_default_rules rwx_event = Some (''mem.rwx_mprotect'', EDR_SEV_CRITICAL)"
  by (simp add: memory_request_def rwx_event_def zero_event_def init_default_tables default_jit_allow_def)

theorem memory_event_verdict_witness:
  "f_severity (fst (evaluate_event init_default_rules rwx_event zero_context init_flow_store)) =
     EDR_SEV_CRITICAL"
  using memory_event_verdict [of rwx_event init_default_rules zero_context init_flow_store] default_jit_fits
  by (auto simp: rwx_request init_default_controls effective_rule_severity_map [OF init_default_rules_wf])
    (auto simp: rwx_event_def)

theorem finding_respects_controls_witness:
  "\<exists>f st'. evaluate_event init_default_rules rwx_event zero_context init_flow_store = (f, st') \<and>
     \<not> rule_id_disabled init_default_rules (rule_text init_default_rules (f_rule_id f)) \<and>
     f_severity f = EDR_SEV_CRITICAL"
proof -
  have "\<exists>f. evaluate_event init_default_rules rwx_event zero_context init_flow_store = (f, init_flow_store)
      \<and> f \<noteq> observed \<and> f_rule_id f = Rid_Lit ''mem.rwx_mprotect''"
    using memory_event_evaluation [of rwx_event init_default_rules zero_context init_flow_store]
      default_jit_fits
    by (auto simp: rwx_request init_default_controls observed_def) (auto simp: rwx_event_def)
  then obtain f where f: "evaluate_event init_default_rules rwx_event zero_context init_flow_store =
      (f, init_flow_store)" "f \<noteq> observed" "f_rule_id f = Rid_Lit ''mem.rwx_mprotect''" by blast
  then show ?thesis using finding_respects_controls [OF init_default_rules_wf f(1,2)]
    by (simp add: init_default_controls)
qed

text \<open>
  The flow rules that apply to a public transfer, most specific first.  The list shows the two gaps
  of the code: a non-interactive idle session ends the search at its own rule, even when that rule is
  disabled or only informational.
\<close>

definition public_transfer :: "edr_event \<Rightarrow> bool" where
  "public_transfer e \<longleftrightarrow> e_type e = EDR_EVENT_CONNECT \<and>
     nc_scope (classify_net_destination e) = ''public'' \<and>
     is_transfer_command (e_comm e) (Some (e_target e))"

definition entry_flag :: "(flow_state_entry \<Rightarrow> bool) \<Rightarrow> flow_state_entry option \<Rightarrow> bool" where
  "entry_flag p entry \<longleftrightarrow> (case entry of Some en \<Rightarrow> p en | None \<Rightarrow> False)"

definition flow_candidates ::
  "edr_rules \<Rightarrow> edr_event \<Rightarrow> process_context \<Rightarrow> flow_state_entry option \<Rightarrow> string list" where
  "flow_candidates r e proc entry =
     (if entry_flag fs_sensitive_read_seen entry
      then [FLOW_RULE_SENSITIVE_READ_THEN_PUBLIC_NET] else []) @
     (if user_idle_context r proc \<and> \<not> pc_has_tty proc \<and> \<not> pc_interactive_session proc
      then [FLOW_RULE_IDLE_PUBLIC_TRANSFER_TOOL]
      else (if process_tree_has_shell_context e proc \<or> entry_flag fs_shell_seen entry
            then [FLOW_RULE_SHELL_DOWNLOADER_PUBLIC_NET] else []) @
           (if \<not> pc_has_tty proc then [FLOW_RULE_NO_TTY_PUBLIC_TRANSFER_TOOL] else []))"

lemma flow_rules_id:
  "map_option f_rule_id (sensitive_flow r b root) =
     (if \<not> rule_id_disabled r FLOW_RULE_SENSITIVE_READ_THEN_PUBLIC_NET
      then Some (Rid_Lit FLOW_RULE_SENSITIVE_READ_THEN_PUBLIC_NET) else None)"
  "map_option f_rule_id (idle_flow r b root) =
     (if \<not> rule_id_disabled r FLOW_RULE_IDLE_PUBLIC_TRANSFER_TOOL
      then Some (Rid_Lit FLOW_RULE_IDLE_PUBLIC_TRANSFER_TOOL) else None)"
  "map_option f_rule_id (shell_flow r root) =
     (if \<not> rule_id_disabled r FLOW_RULE_SHELL_DOWNLOADER_PUBLIC_NET
      then Some (Rid_Lit FLOW_RULE_SHELL_DOWNLOADER_PUBLIC_NET) else None)"
  "map_option f_rule_id (no_tty_flow r b root) =
     (if \<not> rule_id_disabled r FLOW_RULE_NO_TTY_PUBLIC_TRANSFER_TOOL
      then Some (Rid_Lit FLOW_RULE_NO_TTY_PUBLIC_TRANSFER_TOOL) else None)"
proof -
  have id: "map_option f_rule_id x = (if \<not> d then Some i else None)"
    if "x = None \<longleftrightarrow> d" "\<And>f. x = Some f \<Longrightarrow> f_rule_id f = i" for x d i
    using that by (cases x) auto
  show "map_option f_rule_id (sensitive_flow r b root) =
     (if \<not> rule_id_disabled r FLOW_RULE_SENSITIVE_READ_THEN_PUBLIC_NET
      then Some (Rid_Lit FLOW_RULE_SENSITIVE_READ_THEN_PUBLIC_NET) else None)"
    by (rule id [OF flow_rules_None(1)]) (drule flow_rules_Some(1), erule conjunct2)
  show "map_option f_rule_id (idle_flow r b root) =
     (if \<not> rule_id_disabled r FLOW_RULE_IDLE_PUBLIC_TRANSFER_TOOL
      then Some (Rid_Lit FLOW_RULE_IDLE_PUBLIC_TRANSFER_TOOL) else None)"
    by (rule id [OF flow_rules_None(2)]) (drule flow_rules_Some(2), erule conjunct2)
  show "map_option f_rule_id (shell_flow r root) =
     (if \<not> rule_id_disabled r FLOW_RULE_SHELL_DOWNLOADER_PUBLIC_NET
      then Some (Rid_Lit FLOW_RULE_SHELL_DOWNLOADER_PUBLIC_NET) else None)"
    by (rule id [OF flow_rules_None(3)]) (drule flow_rules_Some(3), erule conjunct2)
  show "map_option f_rule_id (no_tty_flow r b root) =
     (if \<not> rule_id_disabled r FLOW_RULE_NO_TTY_PUBLIC_TRANSFER_TOOL
      then Some (Rid_Lit FLOW_RULE_NO_TTY_PUBLIC_TRANSFER_TOOL) else None)"
    by (rule id [OF flow_rules_None(4)]) (drule flow_rules_Some(4), erule conjunct2)
qed

text \<open>Trying up to four rules in order, as a search of the list of those that apply.\<close>

lemma first_rule:
  assumes "map_option f S = (if ok a then Some (g a) else None)"
    and "map_option f I = (if ok b then Some (g b) else None)"
    and "map_option f H = (if ok c then Some (g c) else None)"
    and "map_option f N = (if ok d then Some (g d) else None)"
  shows "map_option f (case (if p then S else None) of Some x \<Rightarrow> Some x | None \<Rightarrow>
      if q then I
      else (case (if h then H else None) of Some x \<Rightarrow> Some x | None \<Rightarrow> if n then N else None)) =
    map_option g (List.find ok ((if p then [a] else []) @
      (if q then [b] else (if h then [c] else []) @ (if n then [d] else []))))"
  using assms
  by (cases S; cases I; cases H; cases N; cases p; cases q; cases h; cases n)
    (simp_all split: if_splits)

lemma connect_flow_rule:
  assumes "flow_wf st"
  shows "map_option f_rule_id (fst (evaluate_connect_flow r e proc st)) =
    (if public_transfer e
     then map_option Rid_Lit (List.find (\<lambda>i. \<not> rule_id_disabled r i)
            (flow_candidates r e proc (flow_view (e_timestamp_ns e) st (flow_root_pid e proc))))
     else None)"
proof (cases "public_transfer e")
  case True
  obtain entry st' where l: "flow_state_lookup (flow_root_pid e proc) (e_timestamp_ns e) st = (entry, st')"
    by (cases "flow_state_lookup (flow_root_pid e proc) (e_timestamp_ns e) st") auto
  have v: "flow_view (e_timestamp_ns e) st (flow_root_pid e proc) = entry"
    using flow_state_lookup_spec(1) [OF assms l] by simp
  let ?shell = "process_tree_has_shell_context e proc \<or> entry_flag fs_shell_seen entry"
  let ?root = "flow_root_pid e proc"
  have eq: "fst (evaluate_connect_flow r e proc st) =
      (case (if entry_flag fs_sensitive_read_seen entry
             then sensitive_flow r (?shell \<or> \<not> pc_has_tty proc) ?root else None) of
         Some f \<Rightarrow> Some f
       | None \<Rightarrow>
           if user_idle_context r proc \<and> \<not> pc_has_tty proc \<and> \<not> pc_interactive_session proc
           then idle_flow r (flow_transfer_allowlisted r e proc) ?root
           else (case (if ?shell then shell_flow r ?root else None) of
                   Some f \<Rightarrow> Some f
                 | None \<Rightarrow> if \<not> pc_has_tty proc
                           then no_tty_flow r (flow_transfer_allowlisted r e proc) ?root else None))"
    using True by (simp add: evaluate_connect_flow_def public_transfer_def l entry_flag_def [symmetric] Let_def
        split del: if_split)
  show ?thesis
    unfolding eq v flow_candidates_def if_P [OF True]
    by (rule first_rule [where ok = "\<lambda>i. \<not> rule_id_disabled r i" and g = Rid_Lit, OF flow_rules_id])
next
  case False
  then show ?thesis by (auto simp: evaluate_connect_flow_def public_transfer_def)
qed

text \<open>
  C12.  Priority of the flow rules: a flow finding is made only for a transfer tool that connects to a
  public address, and its rule is the first one that applies and is not disabled, in the order
  sensitive read, idle session, shell context, no terminal.
\<close>

theorem flow_rule_priority:
  assumes "flow_wf st"
  shows "map_option f_rule_id (fst (evaluate_connect_flow r e proc st)) =
    (if public_transfer e
     then map_option Rid_Lit (List.find (\<lambda>i. \<not> rule_id_disabled r i)
            (flow_candidates r e proc (flow_view (e_timestamp_ns e) st (flow_root_pid e proc))))
     else None)"
  using assms by (rule connect_flow_rule)

definition curl_event :: edr_event where
  "curl_event = zero_event\<lparr>e_type := EDR_EVENT_CONNECT, e_pid := 42, e_net_family := 2,
     e_net_addr_v4 := le32 8 8 8 8, e_net_port := le16 1 187, e_comm := ''curl''\<rparr>"

definition shell_context :: process_context where
  "shell_context = zero_context\<lparr>pc_ppid := 40, pc_parent_comm := ''bash'', pc_has_tty := True\<rparr>"

lemma curl_public: "public_transfer curl_event"
proof -
  have "classify_ipv4_addr (le32 8 8 8 8) =
      \<lparr>nc_scope = ''public'', nc_is_private = False, nc_is_loopback = False\<rparr>"
    by (simp add: classify_ipv4_octets)
  then show ?thesis
    by (simp add: public_transfer_def curl_event_def zero_event_def classify_net_destination_def
        AF_INET_def is_transfer_command_def command_name_in_list_def comm_in_list_def
        transfer_tools_def Let_def)
qed

theorem flow_rule_priority_witness:
  "map_option f_rule_id (fst (evaluate_connect_flow init_default_rules curl_event shell_context
     init_flow_store)) = Some (Rid_Lit FLOW_RULE_SHELL_DOWNLOADER_PUBLIC_NET)"
  using flow_rule_priority [of init_flow_store init_default_rules curl_event shell_context]
  by (simp add: init_flow_facts curl_public flow_candidates_def entry_flag_def shell_context_def
      zero_context_def init_default_controls process_tree_has_shell_context_def is_shell_command_def
      command_name_in_list_def comm_in_list_def shells_def)

lemma connect_flow_result:
  assumes "flow_wf st"
  shows "fst (evaluate_event r e proc st) =
    (case evaluate_local r e of Some f \<Rightarrow> f | None \<Rightarrow>
      (case fst (evaluate_connect_flow r e proc st) of Some f \<Rightarrow> f | None \<Rightarrow>
        (case (if e_type e = EDR_EVENT_CONNECT then is_suspicious_port r (event_dst_port e) else None) of
           Some (s, x) \<Rightarrow> make_finding s x ''connection to suspicious port'' | None \<Rightarrow> observed)))"
  by (simp add: evaluate_event_def split: option.split prod.split)

lemma evaluate_local_connect: "e_type e = EDR_EVENT_CONNECT \<Longrightarrow> evaluate_local r e = None"
  by (simp add: evaluate_local_def)

section \<open>The built-in policy\<close>

text \<open>What a record shows of a finding: its severity and the text of its rule id.\<close>

definition shown_verdict :: "edr_rules \<Rightarrow> edr_finding \<Rightarrow> edr_severity \<times> string" where
  "shown_verdict r f = (f_severity f, rule_text r (f_rule_id f))"

lemma shown_observed: "shown_verdict r observed = (EDR_SEV_INFO, ''event.observed'')"
  by (simp add: shown_verdict_def observed_def)

lemma shown_scan:
  "shown_verdict r (case h of Some (s, x) \<Rightarrow> make_finding s x reason | None \<Rightarrow> f) =
    (case read_hit r h of Some v \<Rightarrow> v | None \<Rightarrow> shown_verdict r f)"
  by (simp add: shown_verdict_def split: option.split prod.split)

lemma no_connect_flow: "\<not> public_transfer e \<Longrightarrow> evaluate_connect_flow r e proc st = (None, st)"
  by (auto simp: evaluate_connect_flow_def public_transfer_def)

lemma exec_event_verdict:
  assumes "e_type e = EDR_EVENT_EXEC"
  shows "shown_verdict r (fst (evaluate_event r e proc st)) =
    (case read_hit r (is_suspicious_exec r (e_target e)) of Some v \<Rightarrow> v
     | None \<Rightarrow> (EDR_SEV_INFO, ''event.observed''))"
proof -
  have "fst (evaluate_event r e proc st) = (case is_suspicious_exec r (e_target e) of
      Some (s, x) \<Rightarrow> make_finding s x ''suspicious process execution'' | None \<Rightarrow> observed)"
    using assms no_connect_flow [of e r proc st]
    by (simp add: evaluate_event_def evaluate_local_def public_transfer_def split: option.split)
  then show ?thesis by (simp only: shown_scan shown_observed)
qed

lemma open_event_verdict:
  assumes "e_type e = EDR_EVENT_OPENAT"
  shows "shown_verdict r (fst (evaluate_event r e proc st)) =
    (case (if opens_for_write (e_flags e) then read_hit r (is_sensitive_write_file r (e_target e)) else None) of
       Some v \<Rightarrow> v
     | None \<Rightarrow> (case read_hit r (is_sensitive_read_file r (e_target e)) of Some v \<Rightarrow> v
         | None \<Rightarrow> (EDR_SEV_INFO, ''event.observed'')))"
proof -
  let ?w = "if opens_for_write (e_flags e) then is_sensitive_write_file r (e_target e) else None"
  have "fst (evaluate_event r e proc st) = (case ?w of
      Some (s, x) \<Rightarrow> make_finding s x ''sensitive file opened for write''
    | None \<Rightarrow> (case is_sensitive_read_file r (e_target e) of
        Some (s, x) \<Rightarrow> make_finding s x ''sensitive file access'' | None \<Rightarrow> observed))"
    using assms no_connect_flow [of e r proc st]
    by (simp add: evaluate_event_def evaluate_local_def public_transfer_def split: option.split)
  moreover have "read_hit r ?w =
      (if opens_for_write (e_flags e) then read_hit r (is_sensitive_write_file r (e_target e)) else None)"
    by simp
  ultimately show ?thesis by (simp only: shown_scan shown_observed)
qed

lemma connect_event_verdict:
  assumes "e_type e = EDR_EVENT_CONNECT" and "\<not> public_transfer e"
  shows "shown_verdict r (fst (evaluate_event r e proc st)) =
    (case read_hit r (is_suspicious_port r (event_dst_port e)) of Some v \<Rightarrow> v
     | None \<Rightarrow> (EDR_SEV_INFO, ''event.observed''))"
proof -
  have "fst (evaluate_event r e proc st) = (case is_suspicious_port r (event_dst_port e) of
      Some (s, x) \<Rightarrow> make_finding s x ''connection to suspicious port'' | None \<Rightarrow> observed)"
    using assms(1) no_connect_flow [OF assms(2), of r proc st]
    by (simp add: evaluate_event_def evaluate_local_connect split: option.split)
  then show ?thesis by (simp only: shown_scan shown_observed)
qed

lemma case_option_if:
  "(case (if b then Some x else y) of Some v \<Rightarrow> v | None \<Rightarrow> z) =
    (if b then x else (case y of Some v \<Rightarrow> v | None \<Rightarrow> z))"
  by simp

lemma default_exec_hit:
  "read_hit init_default_rules (is_suspicious_exec init_default_rules target) =
    (let base = basename_ptr target in
     if base \<in> set default_exec_exact then Some (EDR_SEV_WARN, ''exec.suspicious_exact'')
     else if \<exists>p \<in> set default_exec_prefix. prefix p base then Some (EDR_SEV_WARN, ''exec.suspicious_prefix'')
     else None)"
proof -
  let ?exact = "enabled_hits init_default_rules (\<lambda>v. v = basename_ptr target)
      (ru_suspicious_exec_exact init_default_rules)"
  have "verdict_of init_default_rules ?exact =
      (if basename_ptr target \<in> set default_exec_exact then Some (EDR_SEV_WARN, ''exec.suspicious_exact'') else None)"
    by (simp add: default_hits [OF conjunct2 [OF init_default_tables(1)]])
  then show ?thesis
    using verdict_of_None [of init_default_rules ?exact]
    unfolding is_suspicious_exec_rows [OF init_default_rules_wf] Let_def
    by (simp add: default_hits [OF conjunct2 [OF init_default_tables(2)]] split: if_splits)
qed

lemma default_table_hits:
  "read_hit init_default_rules (is_sensitive_read_file init_default_rules target) =
    (if \<exists>p \<in> set default_read_paths. sublist p target then Some (EDR_SEV_WARN, ''file.sensitive_read'') else None)"
  "read_hit init_default_rules (is_sensitive_write_file init_default_rules target) =
    (if \<exists>p \<in> set default_write_paths. sublist p target
     then Some (EDR_SEV_CRITICAL, ''file.sensitive_write'') else None)"
  "read_hit init_default_rules (is_suspicious_port init_default_rules port) =
    (if port \<in> {4444, 5555, 6666, 6667, 1337, 31337} then Some (EDR_SEV_WARN, ''net.suspicious_port'') else None)"
  using table_scans_rows [OF init_default_rules_wf, of target port]
  by (auto simp: default_hits [OF conjunct2 [OF init_default_tables(3)]]
      default_hits [OF conjunct2 [OF init_default_tables(4)]]
      default_hits [OF conjunct2 [OF init_default_tables(6)]])

text \<open>
  C33.  What the daemon reports out of the box.  Under the built-in policy, and whatever the flow memory
  holds: an execution is reported exactly when the last component of its path is one of the listed
  tools, or starts like one of the listed interpreters; an opened file exactly when one of the listed
  paths occurs in its name, critically so when it is opened for writing (by access mode, creation or
  truncation) and is on the list of protected files; a connection that is no public transfer exactly
  when it goes to one of the six ports; everything else of these kinds is a plain observation.
\<close>

theorem default_policy_verdicts:
  "let verdict = shown_verdict init_default_rules (fst (evaluate_event init_default_rules e proc st));
     base = rev (takeWhile (\<lambda>c. c \<noteq> CHR ''/'') (rev (e_target e)));
     writes = (bit (e_flags e) 0 \<noteq> bit (e_flags e) 1 \<or> bit (e_flags e) 6 \<or> bit (e_flags e) 9) in
   (e_type e = EDR_EVENT_EXEC \<longrightarrow> verdict =
      (if base \<in> {''bash'', ''sh'', ''dash'', ''zsh'', ''curl'', ''wget'', ''nc'', ''ncat'', ''socat'',
                   ''pkexec'', ''sudo''} then (EDR_SEV_WARN, ''exec.suspicious_exact'')
       else if prefix ''python'' base \<or> prefix ''perl'' base \<or> prefix ''ruby'' base
       then (EDR_SEV_WARN, ''exec.suspicious_prefix'')
       else (EDR_SEV_INFO, ''event.observed''))) \<and>
   (e_type e = EDR_EVENT_OPENAT \<longrightarrow> verdict =
      (if writes \<and> (\<exists>p \<in> {''/etc/passwd'', ''/etc/group'', ''/etc/shadow'', ''/etc/sudoers'', ''/etc/ssh/'',
           ''/root/.ssh/'', ''/.ssh/'', ''/etc/systemd/system/'', ''/etc/cron.'', ''/etc/crontab''}.
           sublist p (e_target e)) then (EDR_SEV_CRITICAL, ''file.sensitive_write'')
       else if \<exists>p \<in> {''/etc/shadow'', ''/etc/sudoers'', ''/etc/ssh/'', ''/root/.ssh/'', ''/.ssh/id_rsa'',
           ''/.ssh/id_ed25519'', ''/proc/kcore''}. sublist p (e_target e)
       then (EDR_SEV_WARN, ''file.sensitive_read'')
       else (EDR_SEV_INFO, ''event.observed''))) \<and>
   (e_type e = EDR_EVENT_CONNECT \<and> \<not> public_transfer e \<longrightarrow> verdict =
      (if event_dst_port e \<in> {4444, 5555, 6666, 6667, 1337, 31337}
       then (EDR_SEV_WARN, ''net.suspicious_port'') else (EDR_SEV_INFO, ''event.observed'')))"
  unfolding Let_def opens_for_write_bits [symmetric] basename_last_component [symmetric]
proof (intro conjI impI)
  assume "e_type e = EDR_EVENT_EXEC"
  from exec_event_verdict [OF this, of init_default_rules proc st]
  show "shown_verdict init_default_rules (fst (evaluate_event init_default_rules e proc st)) =
      (if basename_ptr (e_target e) \<in> {''bash'', ''sh'', ''dash'', ''zsh'', ''curl'', ''wget'', ''nc'',
           ''ncat'', ''socat'', ''pkexec'', ''sudo''} then (EDR_SEV_WARN, ''exec.suspicious_exact'')
       else if prefix ''python'' (basename_ptr (e_target e)) \<or> prefix ''perl'' (basename_ptr (e_target e)) \<or>
         prefix ''ruby'' (basename_ptr (e_target e)) then (EDR_SEV_WARN, ''exec.suspicious_prefix'')
       else (EDR_SEV_INFO, ''event.observed''))"
    by (simp only: default_exec_hit default_exec_exact_def default_exec_prefix_def Let_def case_option_if
        option.case list.set bex_simps simp_thms)
qed (simp_all add: open_event_verdict connect_event_verdict default_table_hits default_read_paths_def
    default_write_paths_def)

theorem default_policy_verdicts_witness:
  "shown_verdict init_default_rules (fst (evaluate_event init_default_rules
     (zero_event\<lparr>e_type := EDR_EVENT_EXEC, e_target := ''/usr/bin/python3''\<rparr>) zero_context init_flow_store)) =
     (EDR_SEV_WARN, ''exec.suspicious_prefix'') \<and>
   shown_verdict init_default_rules (fst (evaluate_event init_default_rules
     (zero_event\<lparr>e_type := EDR_EVENT_OPENAT, e_target := ''/proc/kcore''\<rparr>) zero_context init_flow_store)) =
     (EDR_SEV_WARN, ''file.sensitive_read'')"
  using default_policy_verdicts [of "zero_event\<lparr>e_type := EDR_EVENT_EXEC, e_target := ''/usr/bin/python3''\<rparr>"
      zero_context init_flow_store]
    default_policy_verdicts [of "zero_event\<lparr>e_type := EDR_EVENT_OPENAT, e_target := ''/proc/kcore''\<rparr>"
      zero_context init_flow_store]
  by (simp add: Let_def zero_event_def)

text \<open>
  C40.  The transfer allow list can hide a shell downloader: although the shell rule is enabled and its
  context is present, an allow-listed tool in a non-interactive idle session is reported only by the
  informational finding of the idle rule, and by none at all when that rule is disabled.
\<close>

theorem idle_session_masks_shell_flow:
  assumes "rules_wf r" and "flow_wf st" and "public_transfer e"
    and "process_tree_has_shell_context e proc"
    and "flow_view (e_timestamp_ns e) st (flow_root_pid e proc) = None"
    and "user_idle_context r proc" and "\<not> pc_has_tty proc" and "\<not> pc_interactive_session proc"
    and "flow_transfer_allowlisted r e proc"
    and "override_map r FLOW_RULE_IDLE_PUBLIC_TRANSFER_TOOL = None"
  shows "case fst (evaluate_connect_flow r e proc st) of
      None \<Rightarrow> rule_id_disabled r FLOW_RULE_IDLE_PUBLIC_TRANSFER_TOOL
    | Some f \<Rightarrow> f_rule_id f = Rid_Lit FLOW_RULE_IDLE_PUBLIC_TRANSFER_TOOL \<and>
        f_severity f = EDR_SEV_INFO \<and> fst (evaluate_event r e proc st) = f"
proof -
  obtain st' where l: "flow_state_lookup (flow_root_pid e proc) (e_timestamp_ns e) st = (None, st')"
    using flow_state_lookup_spec(1) [OF assms(2)] assms(5)
    by (cases "flow_state_lookup (flow_root_pid e proc) (e_timestamp_ns e) st") auto
  have c: "fst (evaluate_connect_flow r e proc st) = idle_flow r True (flow_root_pid e proc)"
    using assms(3,6-9) l by (simp add: evaluate_connect_flow_def public_transfer_def Let_def)
  have t: "e_type e = EDR_EVENT_CONNECT" using assms(3) by (simp add: public_transfer_def)
  show ?thesis
  proof (cases "idle_flow r True (flow_root_pid e proc)")
    case None
    then have "rule_id_disabled r FLOW_RULE_IDLE_PUBLIC_TRANSFER_TOOL"
      by (simp only: flow_rules_None)
    then show ?thesis using c None by (simp only: option.case)
  next
    case (Some f)
    then have "f_rule_id f = Rid_Lit FLOW_RULE_IDLE_PUBLIC_TRANSFER_TOOL"
      "f_severity f = EDR_SEV_INFO"
      using flow_finding_Some [OF Some [unfolded idle_flow_def]]
      by (simp_all add: effective_rule_severity_map [OF assms(1)] assms(10))
    then show ?thesis
      using Some c connect_flow_result [OF assms(2)] evaluate_local_connect [OF t] by simp
  qed
qed

text \<open>\<open>curl\<close> from a shell without terminal, the user idle for an hour, \<open>flow_allow_transfer=curl\<close>.\<close>

definition allow_curl_rules :: edr_rules where
  "allow_curl_rules = init_default_rules\<lparr>ru_flow_allow_transfer :=
     \<lparr>vt_values = (replicate MAX_RULES [])[0 := ''curl''], vt_count = 1\<rparr>\<rparr>"

definition idle_shell_context :: process_context where
  "idle_shell_context = zero_context\<lparr>pc_ppid := 40, pc_parent_comm := ''bash'',
     pc_user_idle_seconds := 3600\<rparr>"

lemma allow_curl_wf: "rules_wf allow_curl_rules"
  using init_default_rules_wf
  by (simp add: allow_curl_rules_def rules_wf_def override_ids_def vt_wf_def MAX_RULES_def)

theorem idle_session_masks_shell_flow_witness:
  "map_option f_severity (fst (evaluate_connect_flow allow_curl_rules curl_event idle_shell_context
     init_flow_store)) = Some EDR_SEV_INFO"
proof -
  have d: "rule_id_disabled allow_curl_rules i \<longleftrightarrow> False" for i
    by (simp add: allow_curl_rules_def rule_id_disabled_def init_default_fields empty_value_table_def)
  have o: "override_map allow_curl_rules i = None" for i
    by (simp add: allow_curl_rules_def override_map_def override_ids_def init_default_fields)
  have "case fst (evaluate_connect_flow allow_curl_rules curl_event idle_shell_context init_flow_store) of
      None \<Rightarrow> rule_id_disabled allow_curl_rules FLOW_RULE_IDLE_PUBLIC_TRANSFER_TOOL
    | Some f \<Rightarrow> f_rule_id f = Rid_Lit FLOW_RULE_IDLE_PUBLIC_TRANSFER_TOOL \<and>
        f_severity f = EDR_SEV_INFO \<and>
        fst (evaluate_event allow_curl_rules curl_event idle_shell_context init_flow_store) = f"
  proof (rule idle_session_masks_shell_flow [OF allow_curl_wf init_flow_facts(1) curl_public])
    show "process_tree_has_shell_context curl_event idle_shell_context"
      by (simp add: process_tree_has_shell_context_def is_shell_command_def command_name_in_list_def
          comm_in_list_def shells_def idle_shell_context_def)
    show "user_idle_context allow_curl_rules idle_shell_context"
      by (simp add: user_idle_context_def allow_curl_rules_def idle_shell_context_def
          init_default_fields USER_IDLE_UNKNOWN_SECONDS_def)
    have "scan_down f (Suc 0) \<noteq> None" if "f 0 \<noteq> None" for f :: "nat \<Rightarrow> unit option"
      using that by (simp split: option.split)
    then show "flow_transfer_allowlisted allow_curl_rules curl_event idle_shell_context"
      by (simp add: flow_transfer_allowlisted_def allow_curl_rules_def curl_event_def MAX_RULES_def)
  qed (simp_all add: init_flow_facts idle_shell_context_def zero_context_def o)
  then show ?thesis by (auto simp: d split: option.splits)
qed

end
