(* ===== verification/Output.thy ===== *)
theory Output
  imports Evaluate
begin

text \<open>
  What the daemon writes (\<open>dev/host/asic_main.c\<close>): event lines, JSON lines, the policy summary and
  the agent metadata with the configuration hash.  A write is the text appended to the stream.  The
  code prints each JSON record piece by piece; the abstract specification is a list of keys and
  values and their rendering, with a parser that reads the list back.
\<close>

definition JSONL_SCHEMA_VERSION :: string where "JSONL_SCHEMA_VERSION = ''1''"
definition ASIC_EDR_VERSION :: string where "ASIC_EDR_VERSION = ''0.2.0''"
definition MAX_HOSTNAME :: nat where [simp]: "MAX_HOSTNAME = 256"
definition MAX_IDENTITY :: nat where [simp]: "MAX_IDENTITY = 128"

abbreviation dquote :: char where "dquote \<equiv> CHR 0x22"
abbreviation backslash :: char where "backslash \<equiv> CHR 0x5C"

section \<open>Escaping\<close>

definition esc_char :: "char \<Rightarrow> string" where
  "esc_char c =
     (let p = (of_char c :: nat) in
      if c = dquote \<or> c = backslash then [backslash, c]
      else if 0x20 \<le> p \<and> p \<le> 0x7e then [c]
      else [backslash, CHR ''u''] @ pad0 4 (fmt_x p))"

definition json_escape :: "string \<Rightarrow> string" where
  "json_escape value = concat (map esc_char value)"

section \<open>Agent metadata\<close>

record agent_metadata =
  am_schema_version :: string
  am_agent_version :: string
  am_hostname :: string
  am_boot_id :: string
  am_agent_id :: string
  am_config_hash :: string

definition fnv_offset :: u64 where "fnv_offset = 1469598103934665603"
definition fnv_prime :: u64 where "fnv_prime = 1099511628211"

definition fnv_step :: "char \<Rightarrow> u64 \<Rightarrow> u64" where
  "fnv_step c hash = xor hash (of_nat (of_char c)) * fnv_prime"

text \<open>The \<open>fread\<close> loop: one chunk after the other until nothing is left.\<close>

function hash_chunks :: "nat \<Rightarrow> string \<Rightarrow> u64 \<Rightarrow> u64" where
  "hash_chunks n f hash =
     (if n = 0 \<or> f = [] then hash
      else hash_chunks n (drop n f) (fold fnv_step (take n f) hash))"
  by pat_completeness auto
termination
  by (relation "measure (\<lambda>(n, f, hash). length f)") auto

declare hash_chunks.simps [simp del]

definition compute_config_hash :: "os_view \<Rightarrow> string option \<Rightarrow> nat \<Rightarrow> string" where
  "compute_config_hash os path out_size =
     (let hash = (case Option.bind path (os_file os) of
          Some content \<Rightarrow> hash_chunks 4096 content fnv_offset
        | None \<Rightarrow> fold fnv_step ''builtin-defaults'' fnv_offset)
      in snprintf_s out_size (''fnv1a64:'' @ pad0 16 (fmt_x (unat hash))))"

definition init_agent_metadata :: "os_view \<Rightarrow> string option \<Rightarrow> agent_metadata" where
  "init_agent_metadata os config_path =
     (let hostname = (case os_hostname os of
            Some h \<Rightarrow> take (MAX_HOSTNAME - 1) (cstr h)
          | None \<Rightarrow> snprintf_s MAX_HOSTNAME ''unknown'');
          boot_id = (case read_first_line_file os ''/proc/sys/kernel/random/boot_id'' MAX_IDENTITY of
            Some b \<Rightarrow> b | None \<Rightarrow> snprintf_s MAX_IDENTITY ''unknown'');
          agent_id = (case read_first_line_file os ''/etc/machine-id'' MAX_IDENTITY of
            Some a \<Rightarrow> a
          | None \<Rightarrow> snprintf_s MAX_IDENTITY (take (MAX_IDENTITY - 1) hostname))
      in \<lparr>am_schema_version = snprintf_s 16 JSONL_SCHEMA_VERSION,
          am_agent_version = snprintf_s 32 ASIC_EDR_VERSION,
          am_hostname = hostname, am_boot_id = boot_id, am_agent_id = agent_id,
          am_config_hash = compute_config_hash os config_path 32\<rparr>)"

section \<open>Records\<close>

definition write_jsonl_metadata :: "agent_metadata \<Rightarrow> string \<Rightarrow> string" where
  \<open>write_jsonl_metadata m pname =
     ''"schema_version":"'' @ json_escape (am_schema_version m) @
     ''","agent_id":"'' @ json_escape (am_agent_id m) @
     ''","hostname":"'' @ json_escape (am_hostname m) @
     ''","boot_id":"'' @ json_escape (am_boot_id m) @
     ''","agent_version":"'' @ json_escape (am_agent_version m) @
     ''","config_profile":"'' @ json_escape pname @
     ''","config_hash":"'' @ json_escape (am_config_hash m) @
     ''"''\<close>

definition write_policy_summary_console :: "policy_summary \<Rightarrow> string \<Rightarrow> string" where
  "write_policy_summary_console s pre =
     pre @ ''profile='' @ ps_profile_name s @
     '' exec_exact='' @ fmt_u (ps_suspicious_exec_exact_count s) @
     '' exec_prefix='' @ fmt_u (ps_suspicious_exec_prefix_count s) @
     '' sensitive_read='' @ fmt_u (ps_sensitive_read_count s) @
     '' sensitive_write='' @ fmt_u (ps_sensitive_write_count s) @
     '' jit_allow='' @ fmt_u (ps_jit_allow_comm_count s) @
     '' suspicious_ports='' @ fmt_u (ps_suspicious_port_count s) @
     '' flow_allow_transfer='' @ fmt_u (ps_flow_allow_transfer_count s) @
     '' min_severity='' @ fmt_u (sev_code (ps_min_severity s)) @
     '' dedup_window_seconds='' @ fmt_u (unat (ps_dedup_window_seconds s)) @
     '' user_idle_threshold_seconds='' @ fmt_u (unat (ps_user_idle_threshold_seconds s)) @
     '' flow_sensitive_read_then_public_net_severity='' @ fmt_u (sev_code (ps_flow_sensitive_severity s)) @
     '' flow_sensitive_read_then_public_net_score='' @ fmt_u (unat (ps_flow_sensitive_score s)) @
     '' flow_shell_downloader_public_net_severity='' @ fmt_u (sev_code (ps_flow_shell_severity s)) @
     '' flow_shell_downloader_public_net_score='' @ fmt_u (unat (ps_flow_shell_score s)) @
     '' flow_no_tty_public_transfer_tool_severity='' @ fmt_u (sev_code (ps_flow_no_tty_severity s)) @
     '' flow_no_tty_public_transfer_tool_score='' @ fmt_u (unat (ps_flow_no_tty_score s)) @
     '' flow_idle_public_transfer_tool_severity='' @ fmt_u (sev_code (ps_flow_idle_severity s)) @
     '' flow_idle_public_transfer_tool_score='' @ fmt_u (unat (ps_flow_idle_score s)) @ [newline]"

definition write_policy_summary_jsonl :: "agent_metadata \<Rightarrow> policy_summary \<Rightarrow> string" where
  \<open>write_policy_summary_jsonl m s =
     ''{"record":"policy_summary",'' @ write_jsonl_metadata m (ps_profile_name s) @
     '',"version":"'' @ ASIC_EDR_VERSION @ ''","profile":"'' @ json_escape (ps_profile_name s) @
     ''","exec_exact":'' @ fmt_u (ps_suspicious_exec_exact_count s) @
     '',"exec_prefix":'' @ fmt_u (ps_suspicious_exec_prefix_count s) @
     '',"sensitive_read":'' @ fmt_u (ps_sensitive_read_count s) @
     '',"sensitive_write":'' @ fmt_u (ps_sensitive_write_count s) @
     '',"jit_allow":'' @ fmt_u (ps_jit_allow_comm_count s) @
     '',"suspicious_ports":'' @ fmt_u (ps_suspicious_port_count s) @
     '',"flow_allow_transfer":'' @ fmt_u (ps_flow_allow_transfer_count s) @
     '',"min_severity":'' @ fmt_u (sev_code (ps_min_severity s)) @
     '',"dedup_window_seconds":'' @ fmt_u (unat (ps_dedup_window_seconds s)) @
     '',"user_idle_threshold_seconds":'' @ fmt_u (unat (ps_user_idle_threshold_seconds s)) @
     '',"flow_sensitive_read_then_public_net_severity":'' @ fmt_u (sev_code (ps_flow_sensitive_severity s)) @
     '',"flow_sensitive_read_then_public_net_score":'' @ fmt_u (unat (ps_flow_sensitive_score s)) @
     '',"flow_shell_downloader_public_net_severity":'' @ fmt_u (sev_code (ps_flow_shell_severity s)) @
     '',"flow_shell_downloader_public_net_score":'' @ fmt_u (unat (ps_flow_shell_score s)) @
     '',"flow_no_tty_public_transfer_tool_severity":'' @ fmt_u (sev_code (ps_flow_no_tty_severity s)) @
     '',"flow_no_tty_public_transfer_tool_score":'' @ fmt_u (unat (ps_flow_no_tty_score s)) @
     '',"flow_idle_public_transfer_tool_severity":'' @ fmt_u (sev_code (ps_flow_idle_severity s)) @
     '',"flow_idle_public_transfer_tool_score":'' @ fmt_u (unat (ps_flow_idle_score s)) @
     ''}'' @ [newline]\<close>

section \<open>Event lines\<close>

definition format_event :: "(u8 list \<Rightarrow> string) \<Rightarrow> edr_event \<Rightarrow> process_context \<Rightarrow> nat \<Rightarrow> string" where
  "format_event ntop6 e proc line_size =
     (let who = ''pid='' @ fmt_u (unat (e_pid e)) @ '' ppid='' @ fmt_u (unat (pc_ppid proc)) @
            '' parent='' @ pc_parent_comm proc @ '' gppid='' @ fmt_u (unat (pc_gppid proc)) @
            '' grandparent='' @ pc_grandparent_comm proc @ '' uid='' @ fmt_u (unat (e_uid e)) @
            '' comm='' @ e_comm e;
          exe = '' exe='' @ take 120 (pc_exe proc)
      in snprintf_s line_size
       (if e_type e = EDR_EVENT_EXEC then
          who @ '' event=exec target='' @ take 120 (e_target e) @ exe
        else if e_type e = EDR_EVENT_MPROTECT \<or> e_type e = EDR_EVENT_MMAP then
          who @ '' event='' @ event_name (e_type e) @ '' prot=0x'' @ fmt_x (unat (e_prot e)) @
            '' flags=0x'' @ fmt_x (unat (e_flags e)) @ exe
        else if e_type e = EDR_EVENT_OPENAT then
          who @ '' event=openat flags=0x'' @ fmt_x (unat (e_flags e)) @ '' target='' @
            take 120 (e_target e) @ exe
        else if e_type e = EDR_EVENT_CONNECT then
          who @ '' event=connect dst='' @ format_net_addr ntop6 e INET6_ADDRSTRLEN @ '':'' @
            fmt_u (unat (event_dst_port e)) @ exe
        else who @ '' event=unknown type='' @ fmt_u (unat (e_type e))))"

section \<open>Finding records\<close>

definition write_jsonl ::
  "edr_rules \<Rightarrow> agent_metadata \<Rightarrow> (u8 list \<Rightarrow> string) \<Rightarrow> edr_event \<Rightarrow> process_context \<Rightarrow> edr_finding \<Rightarrow>
   u32 \<Rightarrow> string" where
  \<open>write_jsonl r m ntop6 e proc finding repeat_count =
     ''{"record":"finding",'' @ write_jsonl_metadata m (ru_profile_name r) @
     '',"timestamp_ns":'' @ fmt_u (unat (e_timestamp_ns e)) @ '',"event":"'' @ event_name (e_type e) @
     ''","pid":'' @ fmt_u (unat (e_pid e)) @ '',"tid":'' @ fmt_u (unat (e_tid e)) @
     '',"ppid":'' @ fmt_u (unat (pc_ppid proc)) @ '',"gppid":'' @ fmt_u (unat (pc_gppid proc)) @
     '',"uid":'' @ fmt_u (unat (e_uid e)) @ '',"gid":'' @ fmt_u (unat (e_gid e)) @
     '',"comm":"'' @ json_escape (e_comm e) @
     ''","parent_comm":"'' @ json_escape (pc_parent_comm proc) @
     ''","grandparent_comm":"'' @ json_escape (pc_grandparent_comm proc) @
     ''","exe":"'' @ json_escape (pc_exe proc) @
     ''","cwd":"'' @ json_escape (pc_cwd proc) @
     ''","cmdline":"'' @ json_escape (pc_cmdline proc) @
     ''","target":"'' @ json_escape (e_target e) @
     ''","dst_addr":"'' @ json_escape (if e_type e = EDR_EVENT_CONNECT
                                       then format_net_addr ntop6 e INET6_ADDRSTRLEN else '''') @
     ''"'' @
     (if e_type e = EDR_EVENT_CONNECT then
        (let dst = classify_net_destination e in
         '',"dst_scope":"'' @ json_escape (nc_scope dst) @
         ''","dst_is_private":'' @ fmt_bool (nc_is_private dst) @
         '',"dst_is_loopback":'' @ fmt_bool (nc_is_loopback dst))
      else '''') @
     '',"dst_port":'' @ fmt_u (if e_type e = EDR_EVENT_CONNECT then unat (event_dst_port e) else 0) @
     '',"prot":'' @ fmt_u (unat (e_prot e)) @ '',"flags":'' @ fmt_u (unat (e_flags e)) @
     '',"exe_dev":'' @ fmt_u (unat (pc_exe_dev proc)) @
     '',"exe_inode":'' @ fmt_u (unat (pc_exe_inode proc)) @
     '',"exe_mode":'' @ fmt_u (unat (pc_exe_mode proc)) @
     '',"exe_uid":'' @ fmt_u (unat (pc_exe_uid proc)) @
     '',"exe_gid":'' @ fmt_u (unat (pc_exe_gid proc)) @
     '',"exe_mtime":'' @ fmt_d (pc_exe_mtime proc) @
     '',"exe_deleted":'' @ fmt_bool (pc_exe_deleted proc) @
     '',"exe_writable_path":'' @ fmt_bool (pc_exe_writable_path proc) @
     '',"has_tty":'' @ fmt_bool (pc_has_tty proc) @
     '',"interactive_session":'' @ fmt_bool (pc_interactive_session proc) @
     '',"user_idle_seconds":'' @ fmt_u (unat (pc_user_idle_seconds proc)) @
     '',"session_uid":'' @ fmt_u (unat (pc_session_uid proc)) @
     '',"session_id":"'' @ json_escape (pc_session_id proc) @
     ''","user_presence_source":"'' @ json_escape (pc_user_presence_source proc) @
     ''","severity":'' @ fmt_u (sev_code (f_severity finding)) @
     '',"repeat_count":'' @ fmt_u (unat repeat_count) @
     '',"rule_id":"'' @ json_escape (rule_text r (f_rule_id finding)) @
     ''","reason":"'' @ json_escape (f_reason finding) @
     (if f_has_flow finding then
        ''","flow_id":"'' @ json_escape (case f_flow_id finding of Some i \<Rightarrow> rule_text r i | None \<Rightarrow> '''') @
        ''","flow_score":'' @ fmt_u (unat (f_flow_score finding)) @
        '',"flow_reasons":"'' @ json_escape (case f_flow_reasons finding of Some x \<Rightarrow> x | None \<Rightarrow> '''') @
        ''","flow_window_seconds":'' @ fmt_u (unat (f_flow_window_seconds finding)) @
        '',"flow_root_pid":'' @ fmt_u (unat (f_flow_root_pid finding)) @ ''}'' @ [newline]
      else ''"}'' @ [newline])\<close>

section \<open>Escaping can be undone\<close>

definition is_hex :: "char \<Rightarrow> bool" where
  "is_hex c \<longleftrightarrow> is_digit c \<or> (97 \<le> (of_char c :: nat) \<and> (of_char c :: nat) \<le> 102)"

definition hex_val :: "char \<Rightarrow> nat" where
  "hex_val c = (if is_digit c then digit_val c else of_char c - 87)"

definition hex_value :: "string \<Rightarrow> nat" where
  "hex_value s = foldl (\<lambda>n c. 16 * n + hex_val c) 0 s"

text \<open>One escaped character, as a JSON reader takes it; a quote ends the string.\<close>

definition dec_char :: "string \<Rightarrow> (char \<times> string) option" where
  "dec_char s = (case s of [] \<Rightarrow> None | c # t \<Rightarrow>
     if c = dquote then None
     else if c = backslash then
       (case t of [] \<Rightarrow> None | q # u \<Rightarrow>
          if q = dquote \<or> q = backslash then Some (q, u)
          else if q = CHR ''u'' \<and> 4 \<le> length u then Some (char_of (hex_value (take 4 u)), drop 4 u)
          else None)
     else Some (c, t))"

lemma hex_val_digit_char: "d < 16 \<Longrightarrow> hex_val (digit_char d) = d"
  by (auto simp: hex_val_def digit_char_def is_digit_def digit_val_def)

lemma hex_value_fmt_x: "hex_value (fmt_x n) = n"
proof (induction "16 :: nat" n rule: radix.induct)
  case (1 n)
  then show ?case by (subst radix.simps) (auto simp: hex_value_def hex_val_digit_char)
qed

lemma hex_value_zeros: "hex_value (replicate k (CHR ''0'') @ s) = hex_value s"
  by (induction k) (simp_all add: hex_value_def hex_val_def is_digit_def digit_val_def)

lemma hex_value_pad0: "hex_value (pad0 k (fmt_x n)) = n"
  by (simp add: pad0_def hex_value_zeros hex_value_fmt_x)

lemma of_char_less: "(of_char c :: nat) < 256"
  by simp

lemma dec_esc_char: "dec_char (esc_char c @ rest) = Some (c, rest)"
proof (cases "c = dquote \<or> c = backslash \<or> (0x20 \<le> (of_char c :: nat) \<and> (of_char c :: nat) \<le> 0x7e)")
  case True
  then show ?thesis by (auto simp: dec_char_def esc_char_def Let_def)
next
  case False
  have "length (fmt_x (of_char c)) \<le> 4"
    using of_char_less [of c] by (intro length_radix_le; simp add: less_trans [of _ 256])
  then have "length (pad0 4 (fmt_x (of_char c))) = 4" by (rule length_pad0)
  then show ?thesis using False
    by (simp add: dec_char_def esc_char_def Let_def hex_value_pad0)
qed

lemma dec_char_shrinks: "dec_char s = Some (c, t) \<Longrightarrow> length t < length s"
  by (auto simp: dec_char_def split: list.splits if_splits)

text \<open>
  The interface of an escaping: every character's code is read back whatever follows, and the
  terminator is no code.  A whole text is then read back up to its terminator.
\<close>

locale escaping =
  fixes enc :: "'c \<Rightarrow> 'b list" and dec :: "'b list \<Rightarrow> ('c \<times> 'b list) option" and stop :: 'b
  assumes dec_enc: "dec (enc c @ rest) = Some (c, rest)"
    and dec_stop: "dec (stop # rest) = None"
    and dec_less: "dec s = Some (c, t) \<Longrightarrow> length t < length s"
begin

fun take_text :: "nat \<Rightarrow> 'b list \<Rightarrow> 'c list \<times> 'b list" where
  "take_text 0 s = ([], s)"
| "take_text (Suc n) s = (case dec s of None \<Rightarrow> ([], s)
     | Some (c, t) \<Rightarrow> (case take_text n t of (cs, u) \<Rightarrow> (c # cs, u)))"

lemma enc_nonempty: "enc c \<noteq> []"
  using dec_enc [of c "[]"] dec_less by fastforce

theorem take_text_enc:
  "length cs < n \<Longrightarrow> take_text n (concat (map enc cs) @ stop # rest) = (cs, stop # rest)"
proof (induction cs arbitrary: n)
  case Nil
  then show ?case by (cases n) (simp_all add: dec_stop)
next
  case (Cons c cs)
  then show ?case by (cases n) (simp_all add: dec_enc)
qed

lemma length_enc: "length cs \<le> length (concat (map enc cs))"
proof (induction cs)
  case (Cons c cs)
  then show ?case using enc_nonempty [of c] by (cases "enc c") simp_all
qed simp

end

interpretation json: escaping esc_char dec_char dquote
proof unfold_locales
  show "dec_char (esc_char c @ rest) = Some (c, rest)" for c rest by (rule dec_esc_char)
  show "dec_char (dquote # rest) = None" for rest by (simp add: dec_char_def)
  show "length t < length s" if "dec_char s = Some (c, t)" for s c t by (rule dec_char_shrinks [OF that])
qed

section \<open>JSON records\<close>

datatype json = JStr string | JInt int | JBool bool

type_synonym json_record = "(string \<times> json) list"

fun render_value :: "json \<Rightarrow> string" where
  "render_value (JStr s) = dquote # json_escape s @ [dquote]"
| "render_value (JInt i) = fmt_d i"
| "render_value (JBool b) = fmt_bool b"

definition render_field :: "string \<times> json \<Rightarrow> string" where
  "render_field f = dquote # fst f @ dquote # CHR '':'' # render_value (snd f)"

fun render_fields :: "json_record \<Rightarrow> string" where
  "render_fields [] = []"
| "render_fields [f] = render_field f"
| "render_fields (f # fs) = render_field f @ CHR '','' # render_fields fs"

definition render_record :: "json_record \<Rightarrow> string" where
  "render_record fs = CHR ''{'' # render_fields fs @ [CHR ''}'', newline]"

lemma render_fields_Cons: "fs \<noteq> [] \<Longrightarrow>
    render_fields (f # fs) = render_field f @ CHR '','' # render_fields fs"
  by (cases fs) simp_all

lemma render_fields_append: "fs \<noteq> [] \<Longrightarrow> gs \<noteq> [] \<Longrightarrow>
    render_fields (fs @ gs) = render_fields fs @ CHR '','' # render_fields gs"
  by (induction fs rule: render_fields.induct) (simp_all add: render_fields_Cons)

section \<open>Reading records\<close>

definition parse_text :: "string \<Rightarrow> string \<times> string" where
  "parse_text s = json.take_text (Suc (length s)) s"

text \<open>A value and what follows it.\<close>

definition parse_value :: "string \<Rightarrow> (json \<times> string) option" where
  "parse_value s = (case s of [] \<Rightarrow> None | c # t \<Rightarrow>
     if c = dquote then
       (case parse_text t of (v, q # rest) \<Rightarrow> if q = dquote then Some (JStr v, rest) else None | (v, []) \<Rightarrow> None)
     else if prefix ''true'' s then Some (JBool True, drop 4 s)
     else if prefix ''false'' s then Some (JBool False, drop 5 s)
     else if c = CHR ''-'' \<and> takeWhile is_digit t \<noteq> [] then
       Some (JInt (- int (dec_value (takeWhile is_digit t))), dropWhile is_digit t)
     else if is_digit c then
       Some (JInt (int (dec_value (takeWhile is_digit s))), dropWhile is_digit s)
     else None)"

fun expect :: "char \<Rightarrow> string \<Rightarrow> string option" where
  "expect c [] = None"
| "expect c (x # xs) = (if x = c then Some xs else None)"

text \<open>Fields up to the closing brace; the fuel bounds their number.\<close>

fun parse_fields :: "nat \<Rightarrow> string \<Rightarrow> (json_record \<times> string) option" where
  "parse_fields 0 s = None"
| "parse_fields (Suc n) s =
     Option.bind (expect dquote s) (\<lambda>s. case parse_text s of (k, s) \<Rightarrow>
     Option.bind (expect dquote s) (\<lambda>s.
     Option.bind (expect (CHR '':'') s) (\<lambda>s.
     Option.bind (parse_value s) (\<lambda>(v, s). case s of [] \<Rightarrow> None | c # t \<Rightarrow>
       if c = CHR ''}'' then Some ([(k, v)], t)
       else if c = CHR '','' then map_option (\<lambda>(fs, u). ((k, v) # fs, u)) (parse_fields n t)
       else None))))"

definition parse_record :: "string \<Rightarrow> json_record option" where
  "parse_record s =
     Option.bind (expect (CHR ''{'') s) (\<lambda>s.
     Option.bind (parse_fields (length s) s) (\<lambda>(fs, s). if s = [newline] then Some fs else None))"

section \<open>Writing and reading agree\<close>

definition plain :: "string \<Rightarrow> bool" where
  "plain k \<longleftrightarrow> json_escape k = k"

lemma plain_iff: "list_all (\<lambda>c. esc_char c = [c]) k \<Longrightarrow> plain k"
  by (induction k) (simp_all add: plain_def json_escape_def)

lemma parse_text_escape: "parse_text (json_escape s @ dquote # rest) = (s, dquote # rest)"
proof -
  have "length s < Suc (length (json_escape s @ dquote # rest))"
    using json.length_enc [of s] by (simp add: json_escape_def)
  then show ?thesis unfolding parse_text_def json_escape_def by (rule json.take_text_enc)
qed

lemma parse_number:
  assumes "\<not> is_digit c"
  shows "parse_value (fmt_u n @ c # rest) = Some (JInt (int n), c # rest)"
proof -
  obtain d ds where d: "fmt_u n = d # ds" by (cases "fmt_u n") simp_all
  have dd: "is_digit d" using hd_fmt_u [of n] d by simp
  then have ne: "d \<noteq> dquote" "\<not> prefix ''true'' (d # x)" "\<not> prefix ''false'' (d # x)" "d \<noteq> CHR ''-''" for x
    by (auto simp: is_digit_def)
  have t: "takeWhile is_digit (d # ds @ c # rest) = fmt_u n" "dropWhile is_digit (d # ds @ c # rest) = c # rest"
    using digits_then [OF assms, of n rest] d by simp_all
  show ?thesis
    unfolding d append_Cons parse_value_def list.case t
    using ne dd dec_value_fmt_u [of n] by (simp add: d)
qed

lemma parse_negative:
  assumes "\<not> is_digit c"
  shows "parse_value (CHR ''-'' # fmt_u n @ c # rest) = Some (JInt (- int n), c # rest)"
  by (simp add: parse_value_def digits_then [OF assms])

lemma parse_value_render:
  assumes "\<not> is_digit c"
  shows "parse_value (render_value v @ c # rest) = Some (v, c # rest)"
proof (cases v)
  case (JStr s)
  then show ?thesis by (simp add: parse_value_def parse_text_escape)
next
  case (JInt i)
  show ?thesis
  proof (cases "i < 0")
    case True
    then show ?thesis using JInt parse_negative [OF assms, of "nat (- i)" rest] by (simp add: fmt_d_def)
  next
    case False
    then show ?thesis using JInt parse_number [OF assms, of "nat i" rest] by (simp add: fmt_d_def)
  qed
next
  case (JBool b)
  then show ?thesis by (cases b) (simp_all add: parse_value_def fmt_bool_def)
qed

lemma parse_fields_render:
  "fs \<noteq> [] \<Longrightarrow> \<forall>f \<in> set fs. plain (fst f) \<Longrightarrow> length fs \<le> n \<Longrightarrow>
   parse_fields n (render_fields fs @ CHR ''}'' # rest) = Some (fs, rest)"
proof (induction fs arbitrary: n rule: render_fields.induct)
  case (2 f)
  obtain k v where f: "f = (k, v)" by (cases f)
  obtain m where n: "n = Suc m" using "2.prems" by (cases n) auto
  have k: "k = json_escape k" using "2.prems" f by (simp add: plain_def)
  have "parse_text (k @ dquote # x) = (k, dquote # x)" for x
    using parse_text_escape [of k x] k by simp
  then show ?case
    using parse_value_render [of "CHR ''}''" v rest]
    by (simp add: n f render_field_def is_digit_def)
next
  case (3 f g fs)
  obtain k v where f: "f = (k, v)" by (cases f)
  obtain m where n: "n = Suc m" using "3.prems" by (cases n) auto
  have k: "k = json_escape k" using "3.prems" f by (simp add: plain_def)
  have t: "parse_text (k @ dquote # x) = (k, dquote # x)" for x
    using parse_text_escape [of k x] k by simp
  have ih: "parse_fields m (render_fields (g # fs) @ CHR ''}'' # rest) = Some (g # fs, rest)"
    using 3 n by simp
  show ?case
    using parse_value_render [of "CHR '',''" v "render_fields (g # fs) @ CHR ''}'' # rest"] t ih
    by (simp add: n f render_field_def is_digit_def)
qed simp

lemma length_render_field: "Suc 0 \<le> length (render_field f)"
  by (simp add: render_field_def)

lemma length_render_fields: "length fs \<le> length (render_fields fs)"
proof (induction fs rule: render_fields.induct)
  case (2 f)
  then show ?case using length_render_field [of f] by simp
next
  case (3 f g fs)
  then show ?case using length_render_field [of f] by simp
qed simp

lemma parse_render:
  assumes "fs \<noteq> []" and "\<forall>f \<in> set fs. plain (fst f)"
  shows "parse_record (render_record fs) = Some fs"
proof -
  have "length fs \<le> length (render_fields fs @ [CHR ''}'', newline])"
    using length_render_fields [of fs] by simp
  then show ?thesis
    using parse_fields_render [OF assms, of _ "[newline]"]
    by (simp add: parse_record_def render_record_def del: parse_fields.simps)
qed

text \<open>Every character of a record but its last is printable ASCII.\<close>

definition printable :: "char \<Rightarrow> bool" where
  "printable c \<longleftrightarrow> 0x20 \<le> (of_char c :: nat) \<and> (of_char c :: nat) \<le> 0x7e"

lemma printable_hex: "is_digit c \<Longrightarrow> printable c"
  by (auto simp: printable_def is_digit_def)

lemma radix16_printable: "c \<in> set (fmt_x n) \<Longrightarrow> printable c"
proof (induction "16 :: nat" n rule: radix.induct)
  case (1 n)
  have d: "printable (digit_char k)" if "k < 16" for k
    using that by (auto simp: printable_def digit_char_def)
  show ?case
    using 1 d by (subst (asm) (2) radix.simps) (auto split: if_splits)
qed

lemma json_escape_printable: "c \<in> set (json_escape s) \<Longrightarrow> printable c"
  using radix16_printable
  by (fastforce simp: json_escape_def esc_char_def pad0_def Let_def printable_def split: if_splits)

lemma render_value_printable: "c \<in> set (render_value v) \<Longrightarrow> printable c"
  using json_escape_printable printable_hex fmt_u_digits
  by (cases v) (auto simp: fmt_d_def fmt_bool_def printable_def split: if_splits)

section \<open>The records of the daemon\<close>

text \<open>The fields the two kinds of records are meant to carry, in order.\<close>

definition metadata_fields :: "agent_metadata \<Rightarrow> string \<Rightarrow> json_record" where
  "metadata_fields m pname =
     [(''schema_version'', JStr (am_schema_version m)), (''agent_id'', JStr (am_agent_id m)),
      (''hostname'', JStr (am_hostname m)), (''boot_id'', JStr (am_boot_id m)),
      (''agent_version'', JStr (am_agent_version m)), (''config_profile'', JStr pname),
      (''config_hash'', JStr (am_config_hash m))]"

definition JNat :: "nat \<Rightarrow> json" where "JNat n = JInt (int n)"

abbreviation JW :: "'a::len word \<Rightarrow> json" where "JW w \<equiv> JNat (unat w)"

definition event_fields :: "(u8 list \<Rightarrow> string) \<Rightarrow> edr_event \<Rightarrow> process_context \<Rightarrow> json_record" where
  "event_fields ntop6 e proc =
     [(''timestamp_ns'', JW (e_timestamp_ns e)), (''event'', JStr (event_name (e_type e))),
      (''pid'', JW (e_pid e)), (''tid'', JW (e_tid e)), (''ppid'', JW (pc_ppid proc)),
      (''gppid'', JW (pc_gppid proc)), (''uid'', JW (e_uid e)), (''gid'', JW (e_gid e)),
      (''comm'', JStr (e_comm e)), (''parent_comm'', JStr (pc_parent_comm proc)),
      (''grandparent_comm'', JStr (pc_grandparent_comm proc)), (''exe'', JStr (pc_exe proc)),
      (''cwd'', JStr (pc_cwd proc)), (''cmdline'', JStr (pc_cmdline proc)),
      (''target'', JStr (e_target e)),
      (''dst_addr'', JStr (if e_type e = EDR_EVENT_CONNECT
                           then format_net_addr ntop6 e INET6_ADDRSTRLEN else ''''))]"

definition scope_fields :: "edr_event \<Rightarrow> json_record" where
  "scope_fields e = (if e_type e = EDR_EVENT_CONNECT then
     [(''dst_scope'', JStr (nc_scope (classify_net_destination e))),
      (''dst_is_private'', JBool (nc_is_private (classify_net_destination e))),
      (''dst_is_loopback'', JBool (nc_is_loopback (classify_net_destination e)))] else [])"

definition process_fields :: "edr_event \<Rightarrow> process_context \<Rightarrow> json_record" where
  "process_fields e proc =
     [(''dst_port'', JNat (if e_type e = EDR_EVENT_CONNECT then unat (event_dst_port e) else 0)),
      (''prot'', JW (e_prot e)), (''flags'', JW (e_flags e)), (''exe_dev'', JW (pc_exe_dev proc)),
      (''exe_inode'', JW (pc_exe_inode proc)), (''exe_mode'', JW (pc_exe_mode proc)),
      (''exe_uid'', JW (pc_exe_uid proc)), (''exe_gid'', JW (pc_exe_gid proc)),
      (''exe_mtime'', JInt (pc_exe_mtime proc)), (''exe_deleted'', JBool (pc_exe_deleted proc)),
      (''exe_writable_path'', JBool (pc_exe_writable_path proc)), (''has_tty'', JBool (pc_has_tty proc)),
      (''interactive_session'', JBool (pc_interactive_session proc)),
      (''user_idle_seconds'', JW (pc_user_idle_seconds proc)), (''session_uid'', JW (pc_session_uid proc)),
      (''session_id'', JStr (pc_session_id proc)),
      (''user_presence_source'', JStr (pc_user_presence_source proc))]"

definition verdict_fields :: "edr_rules \<Rightarrow> edr_finding \<Rightarrow> u32 \<Rightarrow> json_record" where
  "verdict_fields r f repeat_count =
     [(''severity'', JNat (sev_code (f_severity f))), (''repeat_count'', JW repeat_count),
      (''rule_id'', JStr (rule_text r (f_rule_id f))), (''reason'', JStr (f_reason f))] @
     (if f_has_flow f then
        [(''flow_id'', JStr (case f_flow_id f of Some i \<Rightarrow> rule_text r i | None \<Rightarrow> '''')),
         (''flow_score'', JW (f_flow_score f)),
         (''flow_reasons'', JStr (case f_flow_reasons f of Some x \<Rightarrow> x | None \<Rightarrow> '''')),
         (''flow_window_seconds'', JW (f_flow_window_seconds f)),
         (''flow_root_pid'', JW (f_flow_root_pid f))] else [])"

definition finding_record ::
  "edr_rules \<Rightarrow> agent_metadata \<Rightarrow> (u8 list \<Rightarrow> string) \<Rightarrow> edr_event \<Rightarrow> process_context \<Rightarrow> edr_finding \<Rightarrow>
   u32 \<Rightarrow> json_record" where
  "finding_record r m ntop6 e proc f repeat_count =
     (''record'', JStr ''finding'') # metadata_fields m (ru_profile_name r) @
     event_fields ntop6 e proc @ scope_fields e @ process_fields e proc @
     verdict_fields r f repeat_count"

lemma fmt_d_JNat [simp]: "render_value (JNat n) = fmt_u n"
  by (simp add: JNat_def fmt_d_def)

lemma esc_plain_chars:
  "\<forall>c \<in> set ''abcdefghijklmnopqrstuvwxyzABCDEFGHIJKLMNOPQRSTUVWXYZ0123456789_.-''. esc_char c = [c]"
  by (simp add: esc_char_def)

lemma plain_letters:
  assumes "set k \<subseteq> set ''abcdefghijklmnopqrstuvwxyzABCDEFGHIJKLMNOPQRSTUVWXYZ0123456789_.-''"
  shows "plain k"
  using assms esc_plain_chars by (intro plain_iff) (auto simp only: list_all_iff)

lemma plain_event_name: "json_escape (event_name t) = event_name t"
proof -
  have "plain (event_name t)" by (rule plain_letters) (simp add: event_name_def)
  then show ?thesis by (simp only: plain_def)
qed

lemma metadata_render:
  "write_jsonl_metadata m p = render_fields (metadata_fields m p)"
  by (simp add: write_jsonl_metadata_def metadata_fields_def render_field_def)

lemma plain_finding: "json_escape ''finding'' = ''finding''" "json_escape ''policy_summary'' = ''policy_summary''"
  "json_escape ASIC_EDR_VERSION = ASIC_EDR_VERSION"
  using plain_letters [of "''finding''"] plain_letters [of "''policy_summary''"]
    plain_letters [of ASIC_EDR_VERSION]
  by (simp_all add: plain_def ASIC_EDR_VERSION_def)

lemma write_jsonl_renders:
  "write_jsonl r m ntop6 e proc f repeat_count = render_record (finding_record r m ntop6 e proc f repeat_count)"
  by (cases "e_type e = EDR_EVENT_CONNECT"; cases "f_has_flow f")
    (simp_all add: write_jsonl_def write_jsonl_metadata_def finding_record_def metadata_fields_def
      event_fields_def scope_fields_def process_fields_def verdict_fields_def render_record_def
      render_field_def plain_event_name plain_finding Let_def)

definition summary_record :: "agent_metadata \<Rightarrow> policy_summary \<Rightarrow> json_record" where
  "summary_record m s =
     (''record'', JStr ''policy_summary'') # metadata_fields m (ps_profile_name s) @
     [(''version'', JStr ASIC_EDR_VERSION), (''profile'', JStr (ps_profile_name s)),
      (''exec_exact'', JNat (ps_suspicious_exec_exact_count s)),
      (''exec_prefix'', JNat (ps_suspicious_exec_prefix_count s)),
      (''sensitive_read'', JNat (ps_sensitive_read_count s)),
      (''sensitive_write'', JNat (ps_sensitive_write_count s)),
      (''jit_allow'', JNat (ps_jit_allow_comm_count s)),
      (''suspicious_ports'', JNat (ps_suspicious_port_count s)),
      (''flow_allow_transfer'', JNat (ps_flow_allow_transfer_count s)),
      (''min_severity'', JNat (sev_code (ps_min_severity s))),
      (''dedup_window_seconds'', JW (ps_dedup_window_seconds s)),
      (''user_idle_threshold_seconds'', JW (ps_user_idle_threshold_seconds s)),
      (''flow_sensitive_read_then_public_net_severity'', JNat (sev_code (ps_flow_sensitive_severity s))),
      (''flow_sensitive_read_then_public_net_score'', JW (ps_flow_sensitive_score s)),
      (''flow_shell_downloader_public_net_severity'', JNat (sev_code (ps_flow_shell_severity s))),
      (''flow_shell_downloader_public_net_score'', JW (ps_flow_shell_score s)),
      (''flow_no_tty_public_transfer_tool_severity'', JNat (sev_code (ps_flow_no_tty_severity s))),
      (''flow_no_tty_public_transfer_tool_score'', JW (ps_flow_no_tty_score s)),
      (''flow_idle_public_transfer_tool_severity'', JNat (sev_code (ps_flow_idle_severity s))),
      (''flow_idle_public_transfer_tool_score'', JW (ps_flow_idle_score s))]"

lemma summary_renders: "write_policy_summary_jsonl m s = render_record (summary_record m s)"
  by (simp add: write_policy_summary_jsonl_def write_jsonl_metadata_def summary_record_def
      metadata_fields_def render_record_def render_field_def plain_finding)

lemma plain_keys: "\<forall>f \<in> set (finding_record r m ntop6 e proc f' n). plain (fst f)"
  "\<forall>f \<in> set (summary_record m s). plain (fst f)"
proof -
  have "\<forall>k \<in> fst ` set (finding_record r m ntop6 e proc f' n). plain k"
    by (auto simp: finding_record_def metadata_fields_def event_fields_def scope_fields_def
        process_fields_def verdict_fields_def intro!: plain_letters split: if_splits)
  then show "\<forall>f \<in> set (finding_record r m ntop6 e proc f' n). plain (fst f)" by simp
  show "\<forall>f \<in> set (summary_record m s). plain (fst f)"
    by (auto simp: summary_record_def metadata_fields_def intro!: plain_letters)
qed

lemma render_field_printable: "plain (fst f) \<Longrightarrow> c \<in> set (render_field f) \<Longrightarrow> printable c"
  using json_escape_printable [of c "fst f"] render_value_printable [of c "snd f"]
  by (auto simp: render_field_def plain_def printable_def)

lemma render_fields_printable:
  "\<forall>f \<in> set fs. plain (fst f) \<Longrightarrow> c \<in> set (render_fields fs) \<Longrightarrow> printable c"
  using render_field_printable by (induction fs rule: render_fields.induct) (auto simp: printable_def)

lemma render_record_line:
  assumes "\<forall>f \<in> set fs. plain (fst f)"
  shows "\<exists>body. render_record fs = body @ [newline] \<and> list_all printable body"
proof -
  have "list_all printable (CHR ''{'' # render_fields fs @ ''}'')"
    using render_fields_printable [OF assms] by (auto simp: list_all_iff printable_def)
  then show ?thesis by (intro exI [of _ "CHR ''{'' # render_fields fs @ ''}''"]) (simp add: render_record_def)
qed

section \<open>The configuration hash\<close>

lemma hash_chunks_fold: "0 < n \<Longrightarrow> hash_chunks n f h = fold fnv_step f h"
proof (induction n f h rule: hash_chunks.induct)
  case (1 n f h)
  show ?case
  proof (cases "f = []")
    case True
    then show ?thesis by (simp add: hash_chunks.simps)
  next
    case False
    then have "hash_chunks n f h = fold fnv_step (drop n f) (fold fnv_step (take n f) h)"
      using 1 by (subst hash_chunks.simps) simp
    also have "\<dots> = fold fnv_step (take n f @ drop n f) h" by (simp only: fold_append comp_apply)
    finally show ?thesis by simp
  qed
qed

lemma fnv_prime_inverse: "fnv_prime * 14886173955864302971 = 1"
  by (simp add: fnv_prime_def)

lemma fnv_mult_inj:
  assumes "a * fnv_prime = b * fnv_prime"
  shows "a = b"
proof -
  have "a * fnv_prime * 14886173955864302971 = b * fnv_prime * 14886173955864302971"
    by (simp only: assms)
  then show ?thesis by (simp only: mult.assoc fnv_prime_inverse mult_1_right)
qed

lemma xor_cancel:
  fixes a b c :: u64
  shows "xor a c = xor b c \<longleftrightarrow> a = b" and "xor c a = xor c b \<longleftrightarrow> a = b"
proof -
  have u: "xor (xor d c) c = d" for d :: u64 by (simp add: xor.assoc)
  show "xor a c = xor b c \<longleftrightarrow> a = b"
  proof
    assume "xor a c = xor b c"
    then have "xor (xor a c) c = xor (xor b c) c" by (rule arg_cong)
    then show "a = b" by (simp only: u)
  qed (rule arg_cong)
  then show "xor c a = xor c b \<longleftrightarrow> a = b"
    unfolding xor.commute [of c a] xor.commute [of c b] .
qed

lemma fnv_step_inj: "fnv_step c a = fnv_step c b \<Longrightarrow> a = b"
  unfolding fnv_step_def by (drule fnv_mult_inj) (simp only: xor_cancel)

lemma fnv_step_char:
  assumes "fnv_step x h = fnv_step y h"
  shows "x = y"
proof -
  have "xor h (of_nat (of_char x)) = xor h (of_nat (of_char y))"
    using assms unfolding fnv_step_def by (rule fnv_mult_inj)
  then have "(of_nat (of_char x) :: u64) = of_nat (of_char y)"
    by (simp only: xor_cancel)
  then have "unat (of_nat (of_char x) :: u64) = unat (of_nat (of_char y) :: u64)" by simp
  moreover have "unat (of_nat (of_char c) :: u64) = of_char c" for c
  proof -
    have "(of_char c :: nat) < 2 ^ 64" using of_char_less [of c] by (rule less_le_trans) simp
    then show ?thesis using take_bit_nat_eq_self [of "of_char c" 64] by (simp add: unsigned_of_nat)
  qed
  ultimately have "(of_char x :: nat) = of_char y" by simp
  then show ?thesis by (simp only: of_char_eq_iff)
qed

lemma fold_fnv_inj: "fold fnv_step s a = fold fnv_step s b \<Longrightarrow> a = b"
  by (induction s arbitrary: a b) (auto dest: fnv_step_inj)

lemma hash_text:
  "compute_config_hash os (Some p) 32 = ''fnv1a64:'' @ pad0 16 (fmt_x (unat
     (case os_file os p of Some content \<Rightarrow> fold fnv_step content fnv_offset
      | None \<Rightarrow> fold fnv_step ''builtin-defaults'' fnv_offset)))"
proof -
  have l: "length (pad0 16 (fmt_x (unat (h :: u64)))) = 16" for h
    using unat_less_size [of h] by (intro length_pad0 length_radix_le) simp_all
  show ?thesis
    by (simp add: compute_config_hash_def Let_def hash_chunks_fold snprintf_s_def l split: option.split)
qed

section \<open>Properties\<close>

text \<open>
  C6.  Every finding record is one line of a JSON object that reads back as exactly the fields it is
  meant to carry: for any names, paths, command lines and identities, a reader recovers each value,
  so no text can forge or break another field, and a record holds no line break or control byte but
  its final newline.
\<close>

theorem write_jsonl_roundtrip:
  "parse_record (write_jsonl r m ntop6 e proc f n) = Some (finding_record r m ntop6 e proc f n)
   \<and> (\<exists>body. write_jsonl r m ntop6 e proc f n = body @ [newline] \<and> list_all printable body)"
  unfolding write_jsonl_renders
  by (intro conjI parse_render render_record_line plain_keys) (simp add: finding_record_def)

text \<open>
  The severity and the score the summary must show for a flow rule: the override when there is one,
  else the default of the profile's table.
\<close>

definition shown_flow_severity :: "edr_rules \<Rightarrow> string \<Rightarrow> edr_severity" where
  "shown_flow_severity r i = (case override_map r i of Some s \<Rightarrow> s
     | None \<Rightarrow> fst (the (map_of (flow_defaults (ru_profile r)) i)))"

definition shown_flow_score :: "edr_rules \<Rightarrow> string \<Rightarrow> nat" where
  "shown_flow_score r i = snd (the (map_of (flow_defaults (ru_profile r)) i))"

lemma shown_flow:
  assumes "i \<in> set flow_rule_ids"
  shows "rules_wf r \<Longrightarrow> compiled_flow_rule_severity r i = shown_flow_severity r i"
    and "unat (default_flow_rule_score r i False) = shown_flow_score r i"
proof -
  obtain s n where m: "map_of (flow_defaults (ru_profile r)) i = Some (s, n)"
    using flow_defaults_all [OF assms] by blast
  note d = flow_defaults_at [OF m]
  show "compiled_flow_rule_severity r i = shown_flow_severity r i" if "rules_wf r"
    using d(1) m
    by (simp add: compiled_flow_rule_severity_def effective_rule_severity_map [OF that] shown_flow_severity_def
        split: option.split)
  have "unat (of_nat n :: u32) = n" using d(3) by (simp add: unat_of_nat)
  then show "unat (default_flow_rule_score r i False) = shown_flow_score r i"
    using d(2) m by (simp add: shown_flow_score_def)
qed

text \<open>
  C37.  The policy summary record tells the truth about the policy.  Read back, it holds the profile's
  name, the number of rows of each table, the minimum severity's code, the deduplication window in
  whole seconds, the idle threshold and, for each of the four flow rules, the severity in force (the
  override, else the default of the profile's table) and the profile's base score.
\<close>

theorem policy_summary_roundtrip:
  assumes "rules_wf r"
  shows "parse_record (write_policy_summary_jsonl m (current_policy_summary r)) = Some (
    (''record'', JStr ''policy_summary'') # metadata_fields m (ru_profile_name r) @
    [(''version'', JStr ASIC_EDR_VERSION), (''profile'', JStr (ru_profile_name r)),
     (''exec_exact'', JInt (int (length (rt_rows (ru_suspicious_exec_exact r))))),
     (''exec_prefix'', JInt (int (length (rt_rows (ru_suspicious_exec_prefix r))))),
     (''sensitive_read'', JInt (int (length (rt_rows (ru_sensitive_read r))))),
     (''sensitive_write'', JInt (int (length (rt_rows (ru_sensitive_write r))))),
     (''jit_allow'', JInt (int (length (vt_rows (ru_jit_allow_comm r))))),
     (''suspicious_ports'', JInt (int (length (rt_rows (ru_suspicious_ports r))))),
     (''flow_allow_transfer'', JInt (int (length (vt_rows (ru_flow_allow_transfer r))))),
     (''min_severity'', JInt (case ru_min_severity r of
        EDR_SEV_INFO \<Rightarrow> 0 | EDR_SEV_WARN \<Rightarrow> 1 | EDR_SEV_CRITICAL \<Rightarrow> 2)),
     (''dedup_window_seconds'', JInt (int (unat (ru_dedup_window_ns r) div 10 ^ 9))),
     (''user_idle_threshold_seconds'', JInt (uint (ru_user_idle_threshold_seconds r)))] @
    concat (map (\<lambda>flow.
      [(flow @ ''_severity'', JInt (int (sev_code
          (shown_flow_severity r (''flow.'' @ drop 5 flow))))),
       (flow @ ''_score'', JInt (int (shown_flow_score r (''flow.'' @ drop 5 flow))))])
      [''flow_sensitive_read_then_public_net'', ''flow_shell_downloader_public_net'',
       ''flow_no_tty_public_transfer_tool'', ''flow_idle_public_transfer_tool'']))"
    (is "_ = Some ?shown")
proof -
  have rt: "rt_wf (ru_suspicious_exec_exact r)" "rt_wf (ru_suspicious_exec_prefix r)"
    "rt_wf (ru_sensitive_read r)" "rt_wf (ru_sensitive_write r)" "rt_wf (ru_suspicious_ports r)"
    and vt: "vt_wf (ru_jit_allow_comm r)" "vt_wf (ru_flow_allow_transfer r)"
    using assms by (simp_all add: rules_wf_def)
  have ids: "FLOW_RULE_SENSITIVE_READ_THEN_PUBLIC_NET \<in> set flow_rule_ids"
    "FLOW_RULE_SHELL_DOWNLOADER_PUBLIC_NET \<in> set flow_rule_ids"
    "FLOW_RULE_NO_TTY_PUBLIC_TRANSFER_TOOL \<in> set flow_rule_ids"
    "FLOW_RULE_IDLE_PUBLIC_TRANSFER_TOOL \<in> set flow_rule_ids"
    by (simp_all add: flow_rule_ids_def)
  have ns: "unat (ru_dedup_window_ns r div NS_PER_SECOND) = unat (ru_dedup_window_ns r) div 10 ^ 9"
    by (simp add: NS_PER_SECOND_def unat_div)
  have shown: "summary_record m (current_policy_summary r) = ?shown"
    using ids [THEN shown_flow(1) [OF _ assms]] ids [THEN shown_flow(2)]
    by (simp add: summary_record_def current_policy_summary_def rt [THEN length_rt_rows]
        vt [THEN length_vt_rows] ns flow_rule_names sev_code_def JNat_def split: edr_severity.split)
  show ?thesis
    unfolding shown [symmetric] summary_renders by (intro parse_render plain_keys) (simp add: summary_record_def)
qed

lemma policy_summary_roundtrip_witness:
  "\<exists>fs. parse_record (write_policy_summary_jsonl
       \<lparr>am_schema_version = ''1'', am_agent_version = ''2'', am_hostname = ''h'', am_boot_id = ''b'', am_agent_id = ''a'', am_config_hash = ''c''\<rparr>
       (current_policy_summary init_default_rules)) = Some fs \<and>
     (''sensitive_write'', JInt 10) \<in> set fs \<and> (''dedup_window_seconds'', JInt 5) \<in> set fs \<and>
     (''flow_idle_public_transfer_tool_severity'', JInt 1) \<in> set fs \<and>
     (''flow_idle_public_transfer_tool_score'', JInt 85) \<in> set fs"
  using policy_summary_roundtrip [OF init_default_rules_wf,
      of "\<lparr>am_schema_version = ''1'', am_agent_version = ''2'', am_hostname = ''h'', am_boot_id = ''b'', am_agent_id = ''a'', am_config_hash = ''c''\<rparr>"]
  by (simp add: init_default_tables default_rows_def default_write_paths_def init_default_fields
      init_default_controls shown_flow_severity_def shown_flow_score_def flow_defaults_def)

text \<open>
  C38.  The configuration hash, computed in chunks of 4096 bytes, is not cut by its field, and changes
  whenever a single byte of the file is replaced.
\<close>

theorem config_hash_detects_change:
  assumes "os_file os p = Some (a @ x # b)" and "os_file os' p = Some (a @ y # b)" and "x \<noteq> y"
  shows "length (compute_config_hash os (Some p) 32) = 24
    \<and> compute_config_hash os (Some p) 32 \<noteq> compute_config_hash os' (Some p) 32"
proof -
  have "fold fnv_step (a @ x # b) fnv_offset \<noteq> fold fnv_step (a @ y # b) fnv_offset"
    using assms(3) by (auto dest: fold_fnv_inj fnv_step_char)
  then have n: "unat (fold fnv_step (a @ x # b) fnv_offset) \<noteq> unat (fold fnv_step (a @ y # b) fnv_offset)"
    using unsigned_word_eqI [where ?'a = nat] by blast
  then have "hex_value (pad0 16 (fmt_x (unat (fold fnv_step (a @ x # b) fnv_offset)))) \<noteq>
      hex_value (pad0 16 (fmt_x (unat (fold fnv_step (a @ y # b) fnv_offset))))"
    by (simp only: hex_value_pad0) simp
  moreover have "length (pad0 16 (fmt_x (unat (h :: u64)))) = 16" for h
    using unat_less_size [of h] by (intro length_pad0 length_radix_le) simp_all
  ultimately show ?thesis
    unfolding hash_text assms(1,2) by auto
qed

theorem config_hash_detects_change_witness:
  "compute_config_hash (sample_os\<lparr>os_file := (\<lambda>_. Some ''profile=server'')\<rparr>) (Some ''rules.conf'') 32 \<noteq>
   compute_config_hash (sample_os\<lparr>os_file := (\<lambda>_. Some ''profile=terver'')\<rparr>) (Some ''rules.conf'') 32"
  using config_hash_detects_change [of "sample_os\<lparr>os_file := (\<lambda>_. Some ''profile=server'')\<rparr>" "''rules.conf''"
      "''profile=''" "CHR ''s''" "''erver''" "sample_os\<lparr>os_file := (\<lambda>_. Some ''profile=terver'')\<rparr>" "CHR ''t''"]
  by simp

end
