(* ===== verification/Connections.thy ===== *)
theory Connections
  imports Sensor Output
begin

text \<open>
  A connection on its way through both programs: from the socket address in the memory of the process
  that calls \<open>connect\<close>, through the BPF program of the sensor and the event it submits, to the record
  the daemon writes.  The specification reads the bytes of the socket address the way the kernel
  does and says what the record must show.
\<close>

section \<open>Socket addresses\<close>

text \<open>Where a connection goes: the address, byte by byte, and the port number.\<close>

datatype endpoint = V4 u8 u8 u8 u8 nat | V6 "u8 list" nat

text \<open>
  The endpoint that the bytes of a socket address denote: the family in the first two bytes (low byte
  first), the port in the next two (high byte first), then the address, which for IPv6 follows the
  flow label.  A structure that ends early has a family, but neither address nor port.
\<close>

definition sockaddr_endpoint :: "u8 list \<Rightarrow> endpoint option" where
  "sockaddr_endpoint bs =
     (let port = 256 * unat (bs ! 2) + unat (bs ! 3) in
      if length bs < 2 \<or> bs ! 1 \<noteq> 0 then None
      else if bs ! 0 = 2 then
        Some (if 16 \<le> length bs then V4 (bs ! 4) (bs ! 5) (bs ! 6) (bs ! 7) port else V4 0 0 0 0 0)
      else if bs ! 0 = 10 then
        Some (if 28 \<le> length bs then V6 (take 16 (drop 8 bs)) port else V6 (replicate 16 0) 0)
      else None)"

fun endpoint_port :: "endpoint \<Rightarrow> nat" where
  "endpoint_port (V4 a b c d p) = p"
| "endpoint_port (V6 a p) = p"

fun endpoint_text :: "(u8 list \<Rightarrow> string) \<Rightarrow> endpoint \<Rightarrow> string" where
  "endpoint_text ntop6 (V4 a b c d p) = fmt_u (unat a) @ ''.'' @ fmt_u (unat b) @ ''.'' @
     fmt_u (unat c) @ ''.'' @ fmt_u (unat d)"
| "endpoint_text ntop6 (V6 a p) = ntop6 a"

text \<open>The process has exactly the bytes \<open>bs\<close> mapped from the address on.\<close>

definition memory_at :: "bpf_env \<Rightarrow> u64 \<Rightarrow> u8 list \<Rightarrow> bool" where
  "memory_at k a bs \<longleftrightarrow>
     (\<forall>n. bpf_read_user k a n = (if n \<le> length bs then Some (take n bs) else None))"

section \<open>The event of a connection\<close>

lemma le16_family: "le16 b0 b1 = 2 \<longleftrightarrow> b0 = 2 \<and> b1 = 0" "le16 b0 b1 = 10 \<longleftrightarrow> b0 = 10 \<and> b1 = 0"
proof -
  have w: "le16 b0 b1 = w \<longleftrightarrow> unat b0 + 256 * unat b1 = unat w" for w
    by (simp only: word_unat_eq_iff unat_le16)
  have d: "x + 256 * y = c \<longleftrightarrow> x = c \<and> y = 0" if "c < 256" for x y c :: nat
    using that by (cases y) auto
  show "le16 b0 b1 = 2 \<longleftrightarrow> b0 = 2 \<and> b1 = 0" "le16 b0 b1 = 10 \<longleftrightarrow> b0 = 10 \<and> b1 = 0"
    unfolding w by (simp_all add: u8_eq_iff d)
qed

lemma family_codes: "le16 2 0 = 2" "le16 10 0 = 10"
  by (simp_all add: le16_family)

lemma port_of_bytes: "e_net_port e = le16 p0 p1 \<Longrightarrow> unat (event_dst_port e) = 256 * unat p0 + unat p1"
  by (simp add: event_dst_port_def ntohs_le16 unat_le16)

text \<open>What an event says about its connection.\<close>

definition names_endpoint :: "edr_event \<Rightarrow> endpoint \<Rightarrow> bool" where
  "names_endpoint e ep \<longleftrightarrow> unat (event_dst_port e) = endpoint_port ep \<and>
     (case ep of
        V4 a b c d p \<Rightarrow> e_net_family e = AF_INET \<and> e_net_addr_v4 e = le32 a b c d
      | V6 a p \<Rightarrow> e_net_family e = AF_INET6 \<and> e_net_addr_v6 e = a)"

lemma trace_connect_bytes:
  assumes "memory_at k (ctx_arg ctx 1) bs"
  shows "trace_connect k ctx =
    (let e = (fill_task_identity k zero_event)\<lparr>e_type := EDR_EVENT_CONNECT\<rparr> in
     if ctx_arg ctx 1 = 0 \<or> length bs < 2 \<or> \<not> bpf_reserve k then None
     else if bs ! 1 \<noteq> 0 then None
     else if bs ! 0 = 2 then Some (if 16 \<le> length bs
       then load_sockaddr_in (take 16 bs) (e\<lparr>e_net_family := 2\<rparr>) else e\<lparr>e_net_family := 2\<rparr>)
     else if bs ! 0 = 10 then Some (if 28 \<le> length bs
       then load_sockaddr_in6 (take 28 bs) (e\<lparr>e_net_family := 10\<rparr>) else e\<lparr>e_net_family := 10\<rparr>)
     else None)"
proof -
  have rd: "bpf_read_user k (ctx_arg ctx 1) n = (if n \<le> length bs then Some (take n bs) else None)" for n
    using assms by (simp add: memory_at_def)
  show ?thesis
    by (auto simp: trace_connect_def rd [unfolded One_nat_def] Let_def le16_family family_codes)
qed

lemma trace_connect_endpoint:
  assumes "memory_at k (ctx_arg ctx 1) bs"
  shows "case (if ctx_arg ctx 1 = 0 \<or> \<not> bpf_reserve k then None else sockaddr_endpoint bs) of
      None \<Rightarrow> trace_connect k ctx = None
    | Some ep \<Rightarrow> \<exists>e. trace_connect k ctx = Some e \<and> e_type e = EDR_EVENT_CONNECT \<and>
        e_pid e = ucast (drop_bit 32 (bpf_pid_tgid k)) \<and> names_endpoint e ep"
proof -
  let ?a = "ctx_arg ctx 1"
  note run = trace_connect_bytes [OF assms]
  have zero: "ntohs 0 = 0" "le32 0 0 0 0 = 0"
    using ntohs_le16 [of 0 0] by (simp_all add: le16_def le32_def)
  have port: "unat (event_dst_port (load_sockaddr_in bs' e)) = 256 * unat (bs' ! 2) + unat (bs' ! 3)"
    "unat (event_dst_port (load_sockaddr_in6 bs' e)) = 256 * unat (bs' ! 2) + unat (bs' ! 3)" for bs' e
    by (simp_all add: port_of_bytes load_sockaddr_in_def load_sockaddr_in6_def)
  show ?thesis
  proof (cases "if ?a = 0 \<or> \<not> bpf_reserve k then None else sockaddr_endpoint bs")
    case None
    then show ?thesis unfolding run Let_def by (auto simp: sockaddr_endpoint_def Let_def split: if_splits)
  next
    case (Some ep)
    then have c: "?a \<noteq> 0" "bpf_reserve k" "sockaddr_endpoint bs = Some ep" by (auto split: if_splits)
    then have b: "\<not> length bs < 2" "bs ! 1 = 0" "bs ! 0 = 2 \<or> bs ! 0 = 10"
      by (auto simp: sockaddr_endpoint_def Let_def split: if_splits)
    have "ep = (if bs ! 0 = 2
        then if 16 \<le> length bs
             then V4 (bs ! 4) (bs ! 5) (bs ! 6) (bs ! 7) (256 * unat (bs ! 2) + unat (bs ! 3)) else V4 0 0 0 0 0
        else if 28 \<le> length bs
             then V6 (take 16 (drop 8 bs)) (256 * unat (bs ! 2) + unat (bs ! 3)) else V6 (replicate 16 0) 0)"
      using c(3) b by (auto simp: sockaddr_endpoint_def Let_def split: if_splits)
    then have "names_endpoint (the (trace_connect k ctx)) ep"
      using b(3) c(1,2) b(1,2) unfolding run Let_def
      by (auto simp: names_endpoint_def port)
        (simp_all add: fill_task_identity_def load_sockaddr_in_def load_sockaddr_in6_def zero_event_def
          event_dst_port_def zero drop_take)
    moreover have "\<exists>e. trace_connect k ctx = Some e \<and> e_type e = EDR_EVENT_CONNECT \<and>
        e_pid e = ucast (drop_bit 32 (bpf_pid_tgid k))"
      using b(3) c(1,2) b(1,2) unfolding run Let_def
      by (auto simp: fill_task_identity_def load_sockaddr_in_def load_sockaddr_in6_def)
    ultimately show ?thesis unfolding Some by auto
  qed
qed

text \<open>The address and the port as a record shows them.\<close>

lemma names_endpoint_text:
  assumes "names_endpoint e ep" and "\<And>a. length (ntop6 a) < INET6_ADDRSTRLEN"
  shows "format_net_addr ntop6 e INET6_ADDRSTRLEN = endpoint_text ntop6 ep"
proof (cases ep)
  case (V4 a b c d p)
  then have "e_net_family e = AF_INET" "e_net_addr_v4 e = le32 a b c d"
    using assms(1) by (simp_all add: names_endpoint_def)
  moreover have "length (inet_ntop4 (le32 a b c d)) < INET6_ADDRSTRLEN"
    using length_inet_ntop4 [of "le32 a b c d"] by simp
  ultimately show ?thesis using V4 by (simp add: format_net_addr_def inet_ntop4_def byte_of_le32)
next
  case (V6 a p)
  then show ?thesis using assms by (simp add: names_endpoint_def format_net_addr_def)
qed

lemma record_of_connection:
  assumes "e_type e = EDR_EVENT_CONNECT"
  shows "\<exists>fs. parse_record (write_jsonl r m ntop6 e proc f n) = Some fs \<and>
    map_of fs ''event'' = Some (JStr ''CONNECT'') \<and>
    map_of fs ''pid'' = Some (JInt (uint (e_pid e))) \<and>
    map_of fs ''dst_addr'' = Some (JStr (format_net_addr ntop6 e INET6_ADDRSTRLEN)) \<and>
    map_of fs ''dst_port'' = Some (JInt (int (unat (event_dst_port e))))"
proof (intro exI conjI)
  show "parse_record (write_jsonl r m ntop6 e proc f n) = Some (finding_record r m ntop6 e proc f n)"
    unfolding write_jsonl_renders by (intro parse_render plain_keys) (simp add: finding_record_def)
qed (simp_all add: finding_record_def metadata_fields_def event_fields_def scope_fields_def
    process_fields_def JNat_def event_name_def assms)

section \<open>From the system call to the record\<close>

text \<open>
  C24.  Connections are recorded truthfully.  For any bytes behind the address argument of \<open>connect\<close>, the
  sensor submits nothing exactly when the pointer is null, the bytes name no IPv4 or IPv6 family, or
  the ring buffer is full.  Otherwise every record the daemon writes about the submitted event
  reads back with the process id of the caller, the address of the socket, in dotted or IPv6
  notation, and its port number (the zero address and port when the structure is cut short).
\<close>

theorem connection_recorded:
  assumes "memory_at k (ctx_arg ctx 1) bs" and "\<And>a. length (ntop6 a) < INET6_ADDRSTRLEN"
  shows "case (if ctx_arg ctx 1 = 0 \<or> \<not> bpf_reserve k then None else sockaddr_endpoint bs) of
      None \<Rightarrow> sensor_run k Sys_connect ctx = None
    | Some ep \<Rightarrow> \<exists>e fs. sensor_run k Sys_connect ctx = Some e \<and>
        parse_record (write_jsonl r m ntop6 e proc f n) = Some fs \<and>
        map_of fs ''event'' = Some (JStr ''CONNECT'') \<and>
        map_of fs ''pid'' = Some (JInt (int (unat (bpf_pid_tgid k) div 2 ^ 32))) \<and>
        map_of fs ''dst_addr'' = Some (JStr (endpoint_text ntop6 ep)) \<and>
        map_of fs ''dst_port'' = Some (JInt (int (endpoint_port ep)))"
proof (cases "if ctx_arg ctx 1 = 0 \<or> \<not> bpf_reserve k then None else sockaddr_endpoint bs")
  case None
  then show ?thesis using trace_connect_endpoint [OF assms(1)] by (simp add: sensor_run_def)
next
  case (Some ep)
  then obtain e where e: "trace_connect k ctx = Some e" "e_type e = EDR_EVENT_CONNECT"
      "e_pid e = ucast (drop_bit 32 (bpf_pid_tgid k))" "names_endpoint e ep"
    using trace_connect_endpoint [OF assms(1)] by auto
  have "unat (bpf_pid_tgid k) < 2 ^ 64" using unat_less_size [of "bpf_pid_tgid k"] by simp
  then have "unat (bpf_pid_tgid k) div 2 ^ 32 < 2 ^ 32" by (simp add: less_mult_imp_div_less)
  then have "unat (e_pid e) = unat (bpf_pid_tgid k) div 2 ^ 32"
    by (simp add: e(3) unsigned_ucast_eq unat_drop_bit_eq drop_bit_eq_div take_bit_nat_eq_self unat_div)
  then have pid: "uint (e_pid e) = int (unat (bpf_pid_tgid k) div 2 ^ 32)" by (simp add: uint_nat)
  have port: "unat (event_dst_port e) = endpoint_port ep" using e(4) by (simp add: names_endpoint_def)
  show ?thesis
    unfolding Some option.case sensor_run_def tracepoint.case
    using e(1) record_of_connection [OF e(2), of r m ntop6 proc f n]
    unfolding names_endpoint_text [OF e(4) assms(2)] port pid by blast
qed

text \<open>A process that connects to 93.184.216.34, port 4444.\<close>

definition connecting_env :: bpf_env where
  "connecting_env = sample_bpf_env\<lparr>bpf_read_user := (\<lambda>a n.
     let bs = [2, 0, 17, 92, 93, 184, 216, 34] @ replicate 8 0 in
     if n \<le> length bs then Some (take n bs) else None)\<rparr>"

theorem connection_recorded_witness:
  "\<forall>r m proc f n. \<exists>e fs. sensor_run connecting_env Sys_connect sample_ctx = Some e \<and>
     parse_record (write_jsonl r m (\<lambda>a. ''::'') e proc f n) = Some fs \<and>
     map_of fs ''dst_addr'' = Some (JStr ''93.184.216.34'') \<and> map_of fs ''dst_port'' = Some (JInt 4444)"
proof (intro allI)
  fix r m proc f n
  let ?bs = "[2, 0, 17, 92, 93, 184, 216, 34] @ replicate 8 0"
  have "memory_at connecting_env (ctx_arg sample_ctx 1) ?bs"
    by (simp add: memory_at_def connecting_env_def Let_def)
  from connection_recorded [OF this, of "\<lambda>a. ''::''" r m proc f n]
  show "\<exists>e fs. sensor_run connecting_env Sys_connect sample_ctx = Some e \<and>
     parse_record (write_jsonl r m (\<lambda>a. ''::'') e proc f n) = Some fs \<and>
     map_of fs ''dst_addr'' = Some (JStr ''93.184.216.34'') \<and> map_of fs ''dst_port'' = Some (JInt 4444)"
    by (auto simp: sockaddr_endpoint_def connecting_env_def sample_bpf_env_def sample_ctx_def ctx_arg_def
        fmt_u_step)
qed

end
