(* ===== verification/Dedup.thy ===== *)
theory Dedup
  imports Output Telemetry
begin

text \<open>
  Reporting (\<open>dev/host/asic_main.c\<close>): \<open>emit_finding\<close>, which writes one finding to the telemetry, the
  console and the JSONL file, and the cache of \<open>DEDUP_ENTRIES\<close> entries that holds back repeated
  findings and reports their number later.
\<close>

section \<open>State\<close>

definition DEDUP_ENTRIES :: nat where "DEDUP_ENTRIES = 128"

text \<open>
  The members copied from the finding (severity, rule id, reason and the flow members) are held
  together as a finding; the pointers of a cleared entry are null and never read.
\<close>

record dedup_entry =
  de_active :: bool
  de_type :: u32
  de_pid :: u32
  de_prot :: u32
  de_flags :: u32
  de_net_family :: u32
  de_net_port :: u16
  de_last_seen_ns :: u64
  de_repeat_count :: u32
  de_event :: edr_event
  de_comm :: string
  de_target :: string
  de_finding :: edr_finding

definition zero_dedup_entry :: dedup_entry where
  "zero_dedup_entry = \<lparr>de_active = False, de_type = 0, de_pid = 0, de_prot = 0, de_flags = 0,
     de_net_family = 0, de_net_port = 0, de_last_seen_ns = 0, de_repeat_count = 0,
     de_event = zero_event, de_comm = [], de_target = [],
     de_finding = make_finding EDR_SEV_INFO (Rid_Lit []) []\<rparr>"

text \<open>
  The options of one run; \<open>op_jsonl\<close> says whether a JSONL file is open.  The callbacks get the address
  of the options of \<open>main\<close>, so their pointer is never null.
\<close>

record edr_options =
  op_config_path :: string
  op_bpf_path :: string
  op_jsonl :: bool
  op_console :: bool
  op_all_events :: bool
  op_check_config :: bool

text \<open>What never changes while events are handled: the policy, the metadata, the options.\<close>

record agent_env =
  en_rules :: edr_rules
  en_metadata :: agent_metadata
  en_opts :: edr_options

text \<open>
  The daemon's state.  \<open>ag_log\<close> is a ghost: the calls of \<open>emit_finding\<close> so far, with event, finding
  and repeat count; no operation reads it.
\<close>

record agent =
  ag_telemetry :: asic_telemetry
  ag_flow :: flow_store
  ag_dedup :: "dedup_entry list"
  ag_dedup_cursor :: size_t
  ag_stdout :: string
  ag_jsonl :: string
  ag_log :: "(edr_event \<times> edr_finding \<times> u32) list"

section \<open>Reporting one finding\<close>

definition console_line :: "string \<Rightarrow> edr_finding \<Rightarrow> u32 \<Rightarrow> string" where
  "console_line line finding repeat_count =
     ''[EDR'' @ (if EDR_SEV_INFO < f_severity finding then '' ALERT'' else '''') @ ''] '' @ line @
     '' repeat_count='' @ fmt_u (unat repeat_count) @
     (if EDR_SEV_INFO < f_severity finding then '' reason='' else '''') @
     (if EDR_SEV_INFO < f_severity finding then f_reason finding else '''') @ [newline]"

definition emit_finding ::
  "agent_env \<Rightarrow> os_view \<Rightarrow> edr_event \<Rightarrow> process_context \<Rightarrow> edr_finding \<Rightarrow> u32 \<Rightarrow> agent \<Rightarrow> agent" where
  "emit_finding en os e proc finding repeat_count ag =
     (let line = format_event (os_ntop6 os) e proc MAX_EVENT_MESSAGE;
          g = add_traffic line (ag_telemetry ag);
          g = (if EDR_SEV_INFO < f_severity finding
               then add_alert (os_localtime os) ''EDR'' line (int (sev_code (f_severity finding))) g
               else g);
          out = (if op_console (en_opts en)
                 then ag_stdout ag @ console_line line finding repeat_count else ag_stdout ag);
          jsonl = (if op_jsonl (en_opts en)
                   then ag_jsonl ag @ write_jsonl (en_rules en) (en_metadata en) (os_ntop6 os) e proc
                          finding repeat_count
                   else ag_jsonl ag)
      in ag\<lparr>ag_telemetry := g, ag_stdout := out, ag_jsonl := jsonl,
            ag_log := ag_log ag @ [(e, finding, repeat_count)]\<rparr>)"

section \<open>The cache\<close>

definition same_dedup_key :: "dedup_entry \<Rightarrow> edr_event \<Rightarrow> edr_finding \<Rightarrow> bool" where
  "same_dedup_key entry e finding \<longleftrightarrow>
     de_active entry \<and>
     de_type entry = e_type e \<and>
     de_pid entry = e_pid e \<and>
     de_prot entry = e_prot e \<and>
     de_flags entry = e_flags e \<and>
     de_net_family entry = e_net_family e \<and>
     de_net_port entry = e_net_port e \<and>
     f_reason (de_finding entry) = f_reason finding \<and>
     f_rule_id (de_finding entry) = f_rule_id finding \<and>
     f_has_flow (de_finding entry) = f_has_flow finding \<and>
     f_flow_root_pid (de_finding entry) = f_flow_root_pid finding \<and>
     strncmp_eq COMM_LEN (de_comm entry) (e_comm e) \<and>
     strncmp_eq EDR_MAX_TARGET (de_target entry) (e_target e)"

text \<open>\<open>emit_dedup_entry\<close> on slot \<open>i\<close>, which is cleared in any case.\<close>

definition clear_dedup_entry :: "nat \<Rightarrow> agent \<Rightarrow> agent" where
  "clear_dedup_entry i ag = ag\<lparr>ag_dedup := (ag_dedup ag)[i := zero_dedup_entry]\<rparr>"

definition emit_dedup_entry :: "agent_env \<Rightarrow> os_view \<Rightarrow> nat \<Rightarrow> agent \<Rightarrow> agent" where
  "emit_dedup_entry en os i ag =
     (let entry = ag_dedup ag ! i in
      if \<not> de_active entry \<or> de_repeat_count entry = 0 then clear_dedup_entry i ag
      else
        (let proc = enrich_process os (e_pid (de_event entry)) (e_uid (de_event entry));
             ag = emit_finding en os (de_event entry) proc (de_finding entry) (de_repeat_count entry) ag
         in clear_dedup_entry i ag))"

definition fill_entry :: "edr_event \<Rightarrow> edr_finding \<Rightarrow> dedup_entry" where
  "fill_entry e finding = \<lparr>de_active = True, de_type = e_type e, de_pid = e_pid e,
     de_prot = e_prot e, de_flags = e_flags e, de_net_family = e_net_family e,
     de_net_port = e_net_port e, de_last_seen_ns = e_timestamp_ns e, de_repeat_count = 0,
     de_event = e, de_comm = snprintf_s COMM_LEN (e_comm e),
     de_target = snprintf_s EDR_MAX_TARGET (e_target e), de_finding = finding\<rparr>"

definition suppress_duplicate ::
  "agent_env \<Rightarrow> os_view \<Rightarrow> edr_event \<Rightarrow> edr_finding \<Rightarrow> agent \<Rightarrow> bool \<times> agent" where
  "suppress_duplicate en os e finding ag =
     (let window = ru_dedup_window_ns (en_rules en) in
      case first_index (\<lambda>entry. same_dedup_key entry e finding) (ag_dedup ag) of
        Some i \<Rightarrow>
          (let entry = ag_dedup ag ! i in
           if 0 < window \<and> e_timestamp_ns e - de_last_seen_ns entry < window
           then (True, ag\<lparr>ag_dedup := (ag_dedup ag)[i :=
                   entry\<lparr>de_last_seen_ns := e_timestamp_ns e,
                         de_repeat_count := de_repeat_count entry + 1\<rparr>]\<rparr>)
           else (False, emit_dedup_entry en os i ag))
      | None \<Rightarrow>
          (let i = unat (ag_dedup_cursor ag mod of_nat DEDUP_ENTRIES);
               ag = ag\<lparr>ag_dedup_cursor := ag_dedup_cursor ag + 1\<rparr>;
               entry = ag_dedup ag ! i;
               ag = (if de_active entry \<and> 0 < de_repeat_count entry
                     then emit_dedup_entry en os i ag else ag)
           in (False, ag\<lparr>ag_dedup := (ag_dedup ag)[i := fill_entry e finding]\<rparr>)))"

definition flush_dedup_cache :: "agent_env \<Rightarrow> os_view \<Rightarrow> agent \<Rightarrow> agent" where
  "flush_dedup_cache en os ag = fold (emit_dedup_entry en os) [0..<DEDUP_ENTRIES] ag"

section \<open>Keys and the ledger\<close>

text \<open>What the cache takes for the identity of a repeated finding.\<close>

record dedup_key =
  dk_event :: "u32 \<times> u32 \<times> u32 \<times> u32 \<times> u32 \<times> u16"
  dk_finding :: "string \<times> rule_ref \<times> bool \<times> u32"
  dk_names :: "string \<times> string"

definition event_key :: "edr_event \<Rightarrow> edr_finding \<Rightarrow> dedup_key" where
  "event_key e f = \<lparr>
     dk_event = (e_type e, e_pid e, e_prot e, e_flags e, e_net_family e, e_net_port e),
     dk_finding = (f_reason f, f_rule_id f, f_has_flow f, f_flow_root_pid f),
     dk_names = (e_comm e, e_target e)\<rparr>"

text \<open>An entry in use describes its own event.\<close>

definition entry_ok :: "dedup_entry \<Rightarrow> bool" where
  "entry_ok d \<longleftrightarrow> (de_active d \<longrightarrow>
     wf_event (de_event d) \<and> de_type d = e_type (de_event d) \<and> de_pid d = e_pid (de_event d) \<and>
     de_prot d = e_prot (de_event d) \<and> de_flags d = e_flags (de_event d) \<and>
     de_net_family d = e_net_family (de_event d) \<and> de_net_port d = e_net_port (de_event d) \<and>
     de_comm d = e_comm (de_event d) \<and> de_target d = e_target (de_event d))"

definition entry_key :: "dedup_entry \<Rightarrow> dedup_key" where
  "entry_key d = event_key (de_event d) (de_finding d)"

definition cache_wf :: "dedup_entry list \<Rightarrow> bool" where
  "cache_wf ds \<longleftrightarrow> length ds = DEDUP_ENTRIES \<and> list_all entry_ok ds \<and>
     distinct (map entry_key (filter de_active ds))"

definition dedup_wf :: "agent \<Rightarrow> bool" where
  "dedup_wf ag \<longleftrightarrow> cache_wf (ag_dedup ag)"

text \<open>
  The ledger for one key: how many occurrences the emitted records stand for (a record with repeat
  count 0 is one occurrence, another one as many as it says), and how many the cache still holds back.
\<close>

definition occurrences :: "u32 \<Rightarrow> nat" where
  "occurrences repeat_count = (if repeat_count = 0 then 1 else unat repeat_count)"

definition reported :: "dedup_key \<Rightarrow> agent \<Rightarrow> nat" where
  "reported k ag = sum_list (map (\<lambda>(e, f, n). if event_key e f = k then occurrences n else 0) (ag_log ag))"

definition held_back :: "dedup_key \<Rightarrow> dedup_entry \<Rightarrow> nat" where
  "held_back k d = (if de_active d \<and> entry_key d = k then unat (de_repeat_count d) else 0)"

definition pending :: "dedup_key \<Rightarrow> agent \<Rightarrow> nat" where
  "pending k ag = sum_list (map (held_back k) (ag_dedup ag))"

named_theorems ledger_simps \<open>the ledger after the operations\<close>

lemma same_dedup_key_iff:
  assumes "entry_ok d" and "wf_event e"
  shows "same_dedup_key d e f \<longleftrightarrow> de_active d \<and> entry_key d = event_key e f"
proof (cases "de_active d")
  case True
  then have w: "wf_event (de_event d)" and fields: "de_type d = e_type (de_event d)"
    "de_pid d = e_pid (de_event d)" "de_prot d = e_prot (de_event d)"
    "de_flags d = e_flags (de_event d)" "de_net_family d = e_net_family (de_event d)"
    "de_net_port d = e_net_port (de_event d)" "de_comm d = e_comm (de_event d)"
    "de_target d = e_target (de_event d)"
    using assms(1) by (simp_all add: entry_ok_def)
  have "strncmp_eq COMM_LEN (de_comm d) (e_comm e) \<longleftrightarrow> de_comm d = e_comm e"
    "strncmp_eq EDR_MAX_TARGET (de_target d) (e_target e) \<longleftrightarrow> de_target d = e_target e"
    using w assms(2) fields by (simp_all add: strncmp_eq_full wf_event_def)
  then show ?thesis
    unfolding same_dedup_key_def entry_key_def event_key_def fields using True by auto
qed (simp add: same_dedup_key_def)

lemma held_back_zero [simp]: "held_back k zero_dedup_entry = 0"
  by (simp add: held_back_def zero_dedup_entry_def)

lemma zero_entry_ok [simp]: "entry_ok zero_dedup_entry" "\<not> de_active zero_dedup_entry"
  by (simp_all add: entry_ok_def zero_dedup_entry_def)

lemma fill_entry_ok:
  assumes "wf_event e"
  shows "entry_ok (fill_entry e f)" "de_active (fill_entry e f)" "entry_key (fill_entry e f) = event_key e f"
    "held_back k (fill_entry e f) = 0"
  using assms
  by (simp_all add: entry_ok_def fill_entry_def entry_key_def held_back_def wf_event_def snprintf_s_def)

lemma sum_update:
  assumes "i < length xs"
  shows "sum_list (map h (xs[i := y])) + h (xs ! i) = sum_list (map h xs) + (h y :: nat)"
proof -
  have "h (xs ! i) \<le> sum_list (map h xs)"
    using assms by (intro member_le_sum_list) auto
  then show ?thesis using assms by (simp add: map_update sum_list_update)
qed

lemma pending_update:
  "i < length (ag_dedup ag) \<Longrightarrow>
   pending k (ag\<lparr>ag_dedup := (ag_dedup ag)[i := d]\<rparr>) + held_back k (ag_dedup ag ! i) =
     pending k ag + held_back k d"
  using sum_update [of i "ag_dedup ag" "held_back k" d] by (simp add: pending_def)

lemma pending_frame:
  "ag_dedup ag' = ag_dedup ag \<Longrightarrow> pending k ag' = pending k ag"
  by (simp add: pending_def)

lemma reported_frame: "ag_log ag' = ag_log ag \<Longrightarrow> reported k ag' = reported k ag"
  by (simp add: reported_def)

lemma emit_finding_fields [ledger_simps]:
  "ag_dedup (emit_finding en os e proc f n ag) = ag_dedup ag"
  "ag_dedup_cursor (emit_finding en os e proc f n ag) = ag_dedup_cursor ag"
  "ag_flow (emit_finding en os e proc f n ag) = ag_flow ag"
  "ag_log (emit_finding en os e proc f n ag) = ag_log ag @ [(e, f, n)]"
  by (simp_all add: emit_finding_def Let_def)

lemma reported_emit [ledger_simps]:
  "reported k (emit_finding en os e proc f n ag) =
     reported k ag + (if event_key e f = k then occurrences n else 0)"
  by (simp add: reported_def ledger_simps)

lemma held_back_le: "i < length (ag_dedup ag) \<Longrightarrow> held_back k (ag_dedup ag ! i) \<le> pending k ag"
  unfolding pending_def by (intro member_le_sum_list) auto

section \<open>The cache operations\<close>

lemma distinct_update_inactive:
  assumes "distinct (map g (filter p xs))" and "\<not> p y"
  shows "distinct (map g (filter p (xs[i := y])))"
  using assms
proof (induction xs arbitrary: i)
  case (Cons x xs)
  have sub: "set (filter p (xs[j := y])) \<subseteq> set (filter p xs)" for j
    using assms(2) set_update_subset_insert [of xs j y] by auto
  show ?case
  proof (cases i)
    case 0
    then show ?thesis using Cons.prems by (auto split: if_splits)
  next
    case (Suc j)
    then show ?thesis using Cons sub [of j] by (auto split: if_splits)
  qed
qed simp

lemma cache_wf_clear: "cache_wf ds \<Longrightarrow> cache_wf (ds[i := zero_dedup_entry])"
  using distinct_update_inactive [of entry_key de_active ds zero_dedup_entry i]
    set_update_subset_insert [of ds i zero_dedup_entry]
  by (auto simp: cache_wf_def list_all_iff)

text \<open>Emitting an entry moves what it held back to the report.\<close>

lemma emit_dedup_entry_ledger:
  assumes "i < length (ag_dedup ag)"
  shows "ag_dedup (emit_dedup_entry en os i ag) = (ag_dedup ag)[i := zero_dedup_entry]"
    and "ag_flow (emit_dedup_entry en os i ag) = ag_flow ag"
    and "reported k (emit_dedup_entry en os i ag) = reported k ag + held_back k (ag_dedup ag ! i)"
    and "pending k (emit_dedup_entry en os i ag) + held_back k (ag_dedup ag ! i) = pending k ag"
proof -
  let ?d = "ag_dedup ag ! i"
  show d: "ag_dedup (emit_dedup_entry en os i ag) = (ag_dedup ag)[i := zero_dedup_entry]"
    by (simp add: emit_dedup_entry_def Let_def clear_dedup_entry_def ledger_simps)
  show "ag_flow (emit_dedup_entry en os i ag) = ag_flow ag"
    by (simp add: emit_dedup_entry_def Let_def clear_dedup_entry_def ledger_simps)
  have clear: "reported k (clear_dedup_entry i a) = reported k a" for a
    by (rule reported_frame) (simp add: clear_dedup_entry_def)
  show "reported k (emit_dedup_entry en os i ag) = reported k ag + held_back k ?d"
    by (simp add: emit_dedup_entry_def Let_def clear ledger_simps held_back_def occurrences_def
        entry_key_def)
  have "pending k (emit_dedup_entry en os i ag) = sum_list (map (held_back k) ((ag_dedup ag)[i := zero_dedup_entry]))"
    by (simp only: pending_def d)
  then show "pending k (emit_dedup_entry en os i ag) + held_back k ?d = pending k ag"
    using sum_update [OF assms, of "held_back k" zero_dedup_entry] by (simp add: pending_def)
qed

lemma distinct_update_new:
  assumes "distinct (map g (filter p xs))" and "g y \<notin> g ` {x \<in> set xs. p x}"
  shows "distinct (map g (filter p (xs[i := y])))"
  using assms
proof (induction xs arbitrary: i)
  case (Cons x xs)
  show ?case
  proof (cases i)
    case 0
    then show ?thesis using Cons.prems by (auto split: if_splits)
  next
    case (Suc j)
    have d: "distinct (map g (filter p (xs[j := y])))" using Cons by (auto split: if_splits)
    have "set (xs[j := y]) \<subseteq> insert y (set xs)" by (rule set_update_subset_insert)
    then have "g ` set (filter p (xs[j := y])) \<subseteq> insert (g y) (g ` set (filter p xs))" by auto
    moreover have "g x \<notin> insert (g y) (g ` set (filter p xs))" if "p x"
      using Cons.prems that by (auto simp: image_iff)
    ultimately have "g x \<notin> g ` set (filter p (xs[j := y]))" if "p x"
      using that by blast
    then show ?thesis using d Suc by simp
  qed
qed simp

lemma map_filter_update_same:
  "i < length xs \<Longrightarrow> p y = p (xs ! i) \<Longrightarrow> g y = g (xs ! i) \<Longrightarrow>
   map g (filter p (xs[i := y])) = map g (filter p xs)"
proof (induction xs arbitrary: i)
  case (Cons x xs)
  then show ?case by (cases i) auto
qed simp

lemma list_all_update: "list_all p xs \<Longrightarrow> p y \<Longrightarrow> list_all p (xs[i := y])"
  using set_update_subset_insert [of xs i y] by (auto simp: list_all_iff)

lemma list_all_nth: "list_all p xs \<Longrightarrow> i < length xs \<Longrightarrow> p (xs ! i)"
  by (simp add: list_all_length)

definition count_up :: "edr_event \<Rightarrow> dedup_entry \<Rightarrow> dedup_entry" where
  "count_up e d = d\<lparr>de_last_seen_ns := e_timestamp_ns e, de_repeat_count := de_repeat_count d + 1\<rparr>"

lemma count_up_fields [simp]:
  "entry_ok (count_up e d) = entry_ok d" "entry_key (count_up e d) = entry_key d"
  "de_active (count_up e d) = de_active d" "de_repeat_count (count_up e d) = de_repeat_count d + 1"
  by (simp_all add: count_up_def entry_ok_def entry_key_def)

lemma cache_wf_count_up:
  "cache_wf ds \<Longrightarrow> i < length ds \<Longrightarrow> cache_wf (ds[i := count_up e (ds ! i)])"
  using map_filter_update_same [of i ds de_active "count_up e (ds ! i)" entry_key]
  by (simp add: cache_wf_def list_all_update list_all_nth)

lemma held_back_count_up:
  assumes "de_active d" and "entry_key d = k'" and "unat (de_repeat_count d) < 2 ^ 32 - 1"
  shows "held_back k (count_up e d) = held_back k d + (if k' = k then 1 else 0)"
proof -
  have "unat (de_repeat_count d + 1) = unat (de_repeat_count d) + 1"
    using assms(3) by (simp add: unat_word_ariths)
  then show ?thesis using assms by (simp add: held_back_def)
qed

text \<open>The entry of a finding, found by its key.\<close>

lemma find_entry:
  assumes "cache_wf ds" and "wf_event e"
  shows "first_index (\<lambda>d. same_dedup_key d e f) ds = Some i \<Longrightarrow>
      i < length ds \<and> de_active (ds ! i) \<and> entry_key (ds ! i) = event_key e f"
    and "first_index (\<lambda>d. same_dedup_key d e f) ds = None \<Longrightarrow>
      event_key e f \<notin> entry_key ` {d \<in> set ds. de_active d}"
proof -
  have ok: "entry_ok d" if "d \<in> set ds" for d using assms(1) that by (simp add: cache_wf_def list_all_iff)
  show "i < length ds \<and> de_active (ds ! i) \<and> entry_key (ds ! i) = event_key e f"
    if "first_index (\<lambda>d. same_dedup_key d e f) ds = Some i"
    using that same_dedup_key_iff [OF ok assms(2)] by (auto simp: first_index_Some)
  show "event_key e f \<notin> entry_key ` {d \<in> set ds. de_active d}"
    if "first_index (\<lambda>d. same_dedup_key d e f) ds = None"
    using that same_dedup_key_iff [OF ok assms(2)] by (auto simp: first_index_None)
qed

text \<open>The cache slot a new finding is put into, and its former contents emitted.\<close>

definition slot_of :: "agent \<Rightarrow> nat" where
  "slot_of ag = unat (ag_dedup_cursor ag mod of_nat DEDUP_ENTRIES)"

lemma slot_of_less: "slot_of ag < DEDUP_ENTRIES"
  by (simp add: slot_of_def DEDUP_ENTRIES_def unat_mod)

text \<open>
  The three outcomes of \<open>suppress_duplicate\<close>: counted at its entry, its expired entry emitted and
  cleared, or entered in a slot whose former contents are emitted.
\<close>

lemma suppress_duplicate_cases:
  assumes "suppress_duplicate en os e f ag = (b, ag')" and wf: "dedup_wf ag" and e: "wf_event e"
  obtains
    (counted) i where "b" and "i < length (ag_dedup ag)" and "de_active (ag_dedup ag ! i)"
      and "entry_key (ag_dedup ag ! i) = event_key e f"
      and "e_timestamp_ns e - de_last_seen_ns (ag_dedup ag ! i) < ru_dedup_window_ns (en_rules en)"
      and "ag' = ag\<lparr>ag_dedup := (ag_dedup ag)[i := count_up e (ag_dedup ag ! i)]\<rparr>"
  | (expired) i where "\<not> b" and "i < length (ag_dedup ag)" and "de_active (ag_dedup ag ! i)"
      and "entry_key (ag_dedup ag ! i) = event_key e f" and "ag' = emit_dedup_entry en os i ag"
  | (entered) ag1 where "\<not> b" and "event_key e f \<notin> entry_key ` {d \<in> set (ag_dedup ag). de_active d}"
      and "ag1 = (if de_active (ag_dedup ag ! slot_of ag) \<and> 0 < de_repeat_count (ag_dedup ag ! slot_of ag)
        then emit_dedup_entry en os (slot_of ag) (ag\<lparr>ag_dedup_cursor := ag_dedup_cursor ag + 1\<rparr>)
        else ag\<lparr>ag_dedup_cursor := ag_dedup_cursor ag + 1\<rparr>)"
      and "ag' = ag1\<lparr>ag_dedup := (ag_dedup ag1)[slot_of ag := fill_entry e f]\<rparr>"
proof (cases "first_index (\<lambda>d. same_dedup_key d e f) (ag_dedup ag)")
  case None
  note n = find_entry(2) [OF wf [unfolded dedup_wf_def] e None]
  let ?ag1 = "if de_active (ag_dedup ag ! slot_of ag) \<and> 0 < de_repeat_count (ag_dedup ag ! slot_of ag)
      then emit_dedup_entry en os (slot_of ag) (ag\<lparr>ag_dedup_cursor := ag_dedup_cursor ag + 1\<rparr>)
      else ag\<lparr>ag_dedup_cursor := ag_dedup_cursor ag + 1\<rparr>"
  have "suppress_duplicate en os e f ag =
      (False, ?ag1\<lparr>ag_dedup := (ag_dedup ?ag1)[slot_of ag := fill_entry e f]\<rparr>)"
    using None by (simp add: suppress_duplicate_def Let_def slot_of_def)
  then have "\<not> b" "ag' = ?ag1\<lparr>ag_dedup := (ag_dedup ?ag1)[slot_of ag := fill_entry e f]\<rparr>"
    using assms(1) by simp_all
  then show thesis by (intro entered [OF _ n refl])
next
  case (Some i)
  note s = find_entry(1) [OF wf [unfolded dedup_wf_def] e Some]
  show thesis
  proof (cases "0 < ru_dedup_window_ns (en_rules en) \<and>
      e_timestamp_ns e - de_last_seen_ns (ag_dedup ag ! i) < ru_dedup_window_ns (en_rules en)")
    case True
    then have "b" "ag' = ag\<lparr>ag_dedup := (ag_dedup ag)[i := count_up e (ag_dedup ag ! i)]\<rparr>"
      using assms(1) Some by (simp_all add: suppress_duplicate_def Let_def count_up_def)
    then show thesis using True s counted by blast
  next
    case False
    then have "\<not> b" "ag' = emit_dedup_entry en os i ag"
      using assms(1) Some by (auto simp: suppress_duplicate_def Let_def split: if_splits)
    then show thesis using s expired by blast
  qed
qed

text \<open>Each outcome keeps the cache in order and moves the books as it should.\<close>

lemma counted_ledger:
  assumes wf: "dedup_wf ag" and i: "i < length (ag_dedup ag)" and d: "de_active (ag_dedup ag ! i)"
    "entry_key (ag_dedup ag ! i) = event_key e f"
  defines "ag' \<equiv> ag\<lparr>ag_dedup := (ag_dedup ag)[i := count_up e (ag_dedup ag ! i)]\<rparr>"
  shows "dedup_wf ag'"
    and "pending (event_key e f) ag < 2 ^ 32 - 1 \<Longrightarrow>
      reported k ag' + pending k ag' = reported k ag + pending k ag + (if event_key e f = k then 1 else 0)"
proof -
  show "dedup_wf ag'"
    using cache_wf_count_up [OF _ i] wf by (simp add: ag'_def dedup_wf_def)
  assume room: "pending (event_key e f) ag < 2 ^ 32 - 1"
  have "unat (de_repeat_count (ag_dedup ag ! i)) < 2 ^ 32 - 1"
    using held_back_le [OF i, of "event_key e f"] room d by (simp add: held_back_def)
  note up = held_back_count_up [OF d this, of k]
  have "reported k ag' = reported k ag" by (rule reported_frame) (simp add: ag'_def)
  moreover have "pending k ag' = pending k ag + (if event_key e f = k then 1 else 0)"
    using pending_update [OF i, of k "count_up e (ag_dedup ag ! i)"] up by (simp add: ag'_def)
  ultimately show "reported k ag' + pending k ag' = reported k ag + pending k ag + (if event_key e f = k then 1 else 0)"
    by simp
qed

lemma expired_ledger:
  assumes "dedup_wf ag" and "i < length (ag_dedup ag)"
  shows "dedup_wf (emit_dedup_entry en os i ag)"
    and "reported k (emit_dedup_entry en os i ag) + pending k (emit_dedup_entry en os i ag) =
      reported k ag + pending k ag"
proof -
  note l = emit_dedup_entry_ledger [OF assms(2)]
  have w: "cache_wf (ag_dedup ag)" using assms(1) by (simp add: dedup_wf_def)
  show "dedup_wf (emit_dedup_entry en os i ag)" unfolding dedup_wf_def l(1) by (rule cache_wf_clear [OF w])
  show "reported k (emit_dedup_entry en os i ag) + pending k (emit_dedup_entry en os i ag) =
      reported k ag + pending k ag"
    using l(3,4) [where en = en and os = os and k = k] by simp
qed

lemma entered_ledger:
  assumes wf: "dedup_wf ag" and e: "wf_event e"
    and new: "event_key e f \<notin> entry_key ` {d \<in> set (ag_dedup ag). de_active d}"
    and ag1: "ag1 = (if de_active (ag_dedup ag ! slot_of ag) \<and> 0 < de_repeat_count (ag_dedup ag ! slot_of ag)
        then emit_dedup_entry en os (slot_of ag) (ag\<lparr>ag_dedup_cursor := ag_dedup_cursor ag + 1\<rparr>)
        else ag\<lparr>ag_dedup_cursor := ag_dedup_cursor ag + 1\<rparr>)"
  defines "ag' \<equiv> ag1\<lparr>ag_dedup := (ag_dedup ag1)[slot_of ag := fill_entry e f]\<rparr>"
  shows "dedup_wf ag'" and "ag_flow ag' = ag_flow ag"
    and "reported k ag' + pending k ag' = reported k ag + pending k ag"
proof -
  let ?i = "slot_of ag" and ?ag0 = "ag\<lparr>ag_dedup_cursor := ag_dedup_cursor ag + 1\<rparr>"
  let ?d = "ag_dedup ag ! ?i"
  have w: "cache_wf (ag_dedup ag)" "length (ag_dedup ag) = DEDUP_ENTRIES"
    using wf by (simp_all add: dedup_wf_def cache_wf_def)
  have i: "?i < length (ag_dedup ?ag0)" using slot_of_less w(2) by simp
  note l = emit_dedup_entry_ledger [OF i]
  have ds: "ag_dedup ag' = (ag_dedup ag)[?i := fill_entry e f]" using l(1) by (simp add: ag1 ag'_def)
  show "ag_flow ag' = ag_flow ag" using l(2) by (simp add: ag1 ag'_def)
  have "reported k ag' = reported k ag1" by (rule reported_frame) (simp add: ag'_def)
  moreover have "reported k ag1 = reported k ag + held_back k ?d"
    using l(3) reported_frame [of ?ag0 ag] by (auto simp: ag1 held_back_def word_gt_0)
  moreover have "pending k ag' + held_back k ?d = pending k ag"
    using pending_update [of ?i ag k "fill_entry e f"] i fill_entry_ok(4) [OF e, of k f]
    by (simp add: pending_def ds)
  ultimately show "reported k ag' + pending k ag' = reported k ag + pending k ag" by simp
  have "entry_key (fill_entry e f) \<notin> entry_key ` {d \<in> set (ag_dedup ag). de_active d}"
    using new fill_entry_ok(3) [OF e] by simp
  then show "dedup_wf ag'"
    using w fill_entry_ok(1) [OF e] distinct_update_new [of entry_key de_active "ag_dedup ag"]
    by (simp add: dedup_wf_def ds cache_wf_def list_all_update)
qed

lemma suppress_ledger:
  assumes s: "suppress_duplicate en os e f ag = (b, ag')" and wf: "dedup_wf ag" and e: "wf_event e"
  shows "dedup_wf ag'" and "ag_flow ag' = ag_flow ag"
    and "b \<Longrightarrow> pending (event_key e f) ag < 2 ^ 32 - 1 \<Longrightarrow>
      reported k ag' + pending k ag' = reported k ag + pending k ag + (if event_key e f = k then 1 else 0)"
    and "\<not> b \<Longrightarrow> reported k ag' + pending k ag' = reported k ag + pending k ag"
proof -
  have "dedup_wf ag' \<and> ag_flow ag' = ag_flow ag \<and>
    (b \<longrightarrow> pending (event_key e f) ag < 2 ^ 32 - 1 \<longrightarrow>
      reported k ag' + pending k ag' = reported k ag + pending k ag + (if event_key e f = k then 1 else 0)) \<and>
    (\<not> b \<longrightarrow> reported k ag' + pending k ag' = reported k ag + pending k ag)"
    using s wf e
  proof (cases rule: suppress_duplicate_cases)
    case (counted i)
    then show ?thesis using counted_ledger(1) [OF wf counted(2-4)] counted_ledger(2) [OF wf counted(2-4), of k] by simp
  next
    case (expired i)
    then show ?thesis
      using expired_ledger [OF wf expired(2)] emit_dedup_entry_ledger(2) [OF expired(2)] by simp
  next
    case (entered ag1)
    then show ?thesis using entered_ledger(1,2) [OF wf e entered(2,3)] entered_ledger(3) [OF wf e entered(2,3), of k] by simp
  qed
  then show "dedup_wf ag'" "ag_flow ag' = ag_flow ag"
    "b \<Longrightarrow> pending (event_key e f) ag < 2 ^ 32 - 1 \<Longrightarrow>
      reported k ag' + pending k ag' = reported k ag + pending k ag + (if event_key e f = k then 1 else 0)"
    "\<not> b \<Longrightarrow> reported k ag' + pending k ag' = reported k ag + pending k ag"
    by blast+
qed

section \<open>Flushing\<close>

lemma flush_prefix:
  fixes en :: agent_env and os :: os_view
  assumes "dedup_wf ag" and "n \<le> DEDUP_ENTRIES"
  defines "ag' \<equiv> fold (emit_dedup_entry en os) [0..<n] ag"
  shows "ag_dedup ag' = replicate n zero_dedup_entry @ drop n (ag_dedup ag)"
    and "reported k ag' + pending k ag' = reported k ag + pending k ag"
    and "ag_flow ag' = ag_flow ag"
proof -
  have len: "length (ag_dedup ag) = DEDUP_ENTRIES" using assms(1) by (simp add: dedup_wf_def cache_wf_def)
  have "ag_dedup ag' = replicate n zero_dedup_entry @ drop n (ag_dedup ag) \<and>
    reported k ag' + pending k ag' = reported k ag + pending k ag \<and> ag_flow ag' = ag_flow ag"
    unfolding ag'_def using assms(2)
  proof (induction n)
    case (Suc n)
    let ?a = "fold (emit_dedup_entry en os) [0..<n] ag"
    have ih: "ag_dedup ?a = replicate n zero_dedup_entry @ drop n (ag_dedup ag)"
      "reported k ?a + pending k ?a = reported k ag + pending k ag" "ag_flow ?a = ag_flow ag"
      using Suc by simp_all
    have n: "n < length (ag_dedup ?a)" using ih(1) Suc.prems len by simp
    note l = emit_dedup_entry_ledger [OF n]
    have "ag_dedup (emit_dedup_entry en os n ?a) =
        (replicate n zero_dedup_entry @ drop n (ag_dedup ag))[n := zero_dedup_entry]"
      using l(1) ih(1) by simp
    also have "\<dots> = replicate (Suc n) zero_dedup_entry @ drop (Suc n) (ag_dedup ag)"
      using Suc.prems len Cons_nth_drop_Suc [of n "ag_dedup ag", symmetric]
      by (simp add: list_update_append replicate_append_same [symmetric])
    finally show ?case using l(2) l(3,4) [where en = en and os = os and k = k] ih by simp
  qed simp
  then show "ag_dedup ag' = replicate n zero_dedup_entry @ drop n (ag_dedup ag)"
    "reported k ag' + pending k ag' = reported k ag + pending k ag" "ag_flow ag' = ag_flow ag"
    by blast+
qed

lemma pending_zero: "ag_dedup ag = replicate n zero_dedup_entry \<Longrightarrow> pending k ag = 0"
  by (simp add: pending_def)

lemma flush_ledger:
  assumes "dedup_wf ag"
  shows "reported k (flush_dedup_cache en os ag) = reported k ag + pending k ag"
    and "pending k (flush_dedup_cache en os ag) = 0"
    and "ag_dedup (flush_dedup_cache en os ag) = replicate DEDUP_ENTRIES zero_dedup_entry"
proof -
  note p = flush_prefix [OF assms order_refl, where en = en and os = os]
  have len: "length (ag_dedup ag) = DEDUP_ENTRIES" using assms by (simp add: dedup_wf_def cache_wf_def)
  show d: "ag_dedup (flush_dedup_cache en os ag) = replicate DEDUP_ENTRIES zero_dedup_entry"
    using p(1) len by (simp add: flush_dedup_cache_def)
  then show z: "pending k (flush_dedup_cache en os ag) = 0" by (rule pending_zero)
  show "reported k (flush_dedup_cache en os ag) = reported k ag + pending k ag"
    using p(2) [of k] z by (simp add: flush_dedup_cache_def)
qed

end
