(* ===== verification/Agent.thy ===== *)
theory Agent
  imports Dedup
begin

text \<open>
  The event handler of the daemon (\<open>handle_event\<close> of \<open>dev/host/asic_main.c\<close>): enrichment, flow
  memory, decision, counters, suppression and reporting for one record of the ring buffer, and runs
  of it.
\<close>

definition bump_counters :: "edr_event \<Rightarrow> edr_finding \<Rightarrow> asic_telemetry \<Rightarrow> asic_telemetry" where
  "bump_counters e finding g =
     (let g = (if e_type e = EDR_EVENT_EXEC then g\<lparr>exec_events := exec_events g + 1\<rparr>
               else if e_type e = EDR_EVENT_MPROTECT \<or> e_type e = EDR_EVENT_MMAP
               then g\<lparr>mem_events := mem_events g + 1\<rparr>
               else if e_type e = EDR_EVENT_OPENAT then g\<lparr>file_events := file_events g + 1\<rparr>
               else if e_type e = EDR_EVENT_CONNECT then g\<lparr>net_events := net_events g + 1\<rparr>
               else g)
      in if EDR_SEV_INFO < f_severity finding
         then g\<lparr>suspicious_events := suspicious_events g + 1\<rparr> else g)"

text \<open>An alert that the severity floor lets through.\<close>

definition alertable :: "edr_rules \<Rightarrow> edr_finding \<Rightarrow> bool" where
  "alertable r finding \<longleftrightarrow> EDR_SEV_INFO < f_severity finding \<and> ru_min_severity r \<le> f_severity finding"

text \<open>
  Up to the decision: the context (zero until some rule needs it, for executions and connections at
  once), the flow memory before and after, and the finding.
\<close>

definition assess :: "agent_env \<Rightarrow> os_view \<Rightarrow> edr_event \<Rightarrow> flow_store \<Rightarrow>
    edr_finding \<times> bool \<times> process_context \<times> flow_store" where
  "assess en os e flow =
     (let r = en_rules en;
          enriched = (e_type e = EDR_EVENT_EXEC \<or> e_type e = EDR_EVENT_CONNECT);
          proc = (if enriched then enrich_process os (e_pid e) (e_uid e) else zero_context);
          flow = (if enriched then flow_state_observe_event e proc flow else flow);
          (finding, flow) = evaluate_event r e proc flow
      in if e_type e = EDR_EVENT_OPENAT \<and>
            rule_id_matches_family (rule_text r (f_rule_id finding)) ''file.sensitive_read''
         then (let proc = (if \<not> enriched then enrich_process os (e_pid e) (e_uid e) else proc)
               in (finding, True, proc, flow_state_observe_sensitive_read e proc flow))
         else (finding, enriched, proc, flow))"

definition handle_event :: "agent_env \<Rightarrow> os_view \<Rightarrow> edr_event \<Rightarrow> nat \<Rightarrow> agent \<Rightarrow> agent" where
  "handle_event en os e data_sz ag =
     (if data_sz < sizeof_edr_event then ag
      else
        (let (finding, enriched, proc, flow) = assess en os e (ag_flow ag);
             ag = ag\<lparr>ag_flow := flow, ag_telemetry := bump_counters e finding (ag_telemetry ag)\<rparr>;
             all_events = op_all_events (en_opts en);
             should_emit = (alertable (en_rules en) finding \<or> all_events);
             (suppressed, ag) = (if \<not> all_events \<and> alertable (en_rules en) finding
                                 then suppress_duplicate en os e finding ag else (False, ag));
             should_emit = (if suppressed then False else should_emit)
         in if \<not> should_emit then ag
            else (let proc = (if \<not> enriched then enrich_process os (e_pid e) (e_uid e) else proc)
                  in emit_finding en os e proc finding 0 ag)))"

text \<open>The ring buffer hands over one record after the other, each with the view of its moment.\<close>

type_synonym delivery = "os_view \<times> edr_event \<times> nat"

fun handle_events :: "agent_env \<Rightarrow> delivery list \<Rightarrow> agent \<Rightarrow> agent" where
  "handle_events en [] ag = ag"
| "handle_events en ((os, e, data_sz) # ds) ag = handle_events en ds (handle_event en os e data_sz ag)"

definition init_agent :: agent where
  "init_agent = \<lparr>ag_telemetry = init_telemetry, ag_flow = init_flow_store,
     ag_dedup = replicate DEDUP_ENTRIES zero_dedup_entry, ag_dedup_cursor = 0,
     ag_stdout = [], ag_jsonl = [], ag_log = []\<rparr>"

section \<open>Runs\<close>

lemma handle_events_append:
  "handle_events en (ds @ ds') ag = handle_events en ds' (handle_events en ds ag)"
  by (induction ds arbitrary: ag) auto

text \<open>The decisions alone: what a run makes of its events, whatever is then counted or reported.\<close>

fun verdicts :: "agent_env \<Rightarrow> delivery list \<Rightarrow> flow_store \<Rightarrow> (edr_event \<times> edr_finding) list" where
  "verdicts en [] flow = []"
| "verdicts en ((os, e, data_sz) # ds) flow =
     (if data_sz < sizeof_edr_event then verdicts en ds flow
      else (case assess en os e flow of (f, _, _, flow') \<Rightarrow> (e, f) # verdicts en ds flow'))"

definition reportable :: "agent_env \<Rightarrow> edr_finding \<Rightarrow> bool" where
  "reportable en f \<longleftrightarrow> op_all_events (en_opts en) \<or> alertable (en_rules en) f"

text \<open>
  A reporting component with a ledger: each event that is to be reported under a key adds one to what
  was reported or is held back under that key, and settling reports all that was held back.  \<open>cap\<close>
  is the number the counters can hold.
\<close>

locale report_ledger =
  fixes inv :: "'s \<Rightarrow> bool"
    and ok :: "'d \<Rightarrow> bool"
    and paid :: "'k \<Rightarrow> 's \<Rightarrow> nat"
    and due :: "'k \<Rightarrow> 's \<Rightarrow> nat"
    and event :: "'d \<Rightarrow> 's \<Rightarrow> 's"
    and key :: "'d \<Rightarrow> 's \<Rightarrow> 'k option"
    and settle :: "'s \<Rightarrow> 's"
    and cap :: nat
  assumes inv_event: "inv s \<Longrightarrow> ok d \<Longrightarrow> inv (event d s)"
    and balance: "inv s \<Longrightarrow> ok d \<Longrightarrow> (\<And>j. due j s < cap) \<Longrightarrow>
      paid k (event d s) + due k (event d s) = paid k s + due k s + (if key d s = Some k then 1 else 0)"
    and settle_paid: "inv s \<Longrightarrow> paid k (settle s) = paid k s + due k s"
begin

fun run :: "'d list \<Rightarrow> 's \<Rightarrow> 's" where
  "run [] s = s"
| "run (d # ds) s = run ds (event d s)"

fun keys :: "'d list \<Rightarrow> 's \<Rightarrow> 'k list" where
  "keys [] s = []"
| "keys (d # ds) s = (case key d s of None \<Rightarrow> keys ds (event d s) | Some k \<Rightarrow> k # keys ds (event d s))"

theorem run_balance:
  assumes "inv s" and "\<forall>d \<in> set ds. ok d" and "\<And>j. paid j s + due j s + length ds \<le> cap"
  shows "inv (run ds s) \<and> paid k (run ds s) + due k (run ds s) = paid k s + due k s + count_list (keys ds s) k"
  using assms
proof (induction ds arbitrary: s)
  case (Cons d ds)
  have i: "inv (event d s)" using inv_event Cons.prems(1,2) by simp
  have room: "due j s < cap" for j using Cons.prems(3) [of j] by simp
  have b: "paid j (event d s) + due j (event d s) = paid j s + due j s + (if key d s = Some j then 1 else 0)"
    for j using balance [OF Cons.prems(1) _ room] Cons.prems(2) by simp
  have "paid j (event d s) + due j (event d s) + length ds \<le> cap" for j
    using b [of j] Cons.prems(3) [of j] by (simp split: if_splits)
  then have "inv (run ds (event d s)) \<and> paid k (run ds (event d s)) + due k (run ds (event d s)) =
      paid k (event d s) + due k (event d s) + count_list (keys ds (event d s)) k"
    using Cons.IH [OF i] Cons.prems(2) by simp
  then show ?case using b [of k] by (auto split: option.split)
qed simp

theorem settled:
  assumes "inv s" and "\<forall>d \<in> set ds. ok d" and "\<And>j. paid j s + due j s + length ds \<le> cap"
  shows "paid k (settle (run ds s)) = paid k s + due k s + count_list (keys ds s) k"
  using run_balance [OF assms] settle_paid by simp

end

section \<open>One event\<close>

lemma assess_finding_small: "data_sz < sizeof_edr_event \<Longrightarrow> handle_event en os e data_sz ag = ag"
  by (simp add: handle_event_def)

text \<open>The three ways an event ends: silently, suppressed or entered, reported.\<close>

lemma handle_event_step:
  assumes "\<not> data_sz < sizeof_edr_event" and a: "assess en os e (ag_flow ag) = (f, enr, proc, flow)"
  defines "ag0 \<equiv> ag\<lparr>ag_flow := flow, ag_telemetry := bump_counters e f (ag_telemetry ag)\<rparr>"
  shows "handle_event en os e data_sz ag =
    (if \<not> reportable en f then ag0
     else (let proc' = (if \<not> enr then enrich_process os (e_pid e) (e_uid e) else proc) in
       if op_all_events (en_opts en) then emit_finding en os e proc' f 0 ag0
       else (case suppress_duplicate en os e f ag0 of
               (b, ag1) \<Rightarrow> if b then ag1 else emit_finding en os e proc' f 0 ag1)))"
  using assms(1) by (auto simp: handle_event_def a ag0_def reportable_def Let_def split: prod.split)

lemma agent_frame [simp]:
  "ag_dedup (ag\<lparr>ag_flow := fl, ag_telemetry := g\<rparr>) = ag_dedup ag"
  "ag_log (ag\<lparr>ag_flow := fl, ag_telemetry := g\<rparr>) = ag_log ag"
  by simp_all

lemma dedup_wf_frame: "ag_dedup ag' = ag_dedup ag \<Longrightarrow> dedup_wf ag' = dedup_wf ag"
  by (simp add: dedup_wf_def)

definition verdict_key :: "agent_env \<Rightarrow> edr_event \<Rightarrow> edr_finding \<Rightarrow> dedup_key option" where
  "verdict_key en e f = (if reportable en f then Some (event_key e f) else None)"

lemma handle_event_ledger:
  assumes wf: "dedup_wf ag" and e: "wf_event e" and sz: "\<not> data_sz < sizeof_edr_event"
    and a: "assess en os e (ag_flow ag) = (f, enr, proc, flow)"
  defines "ag' \<equiv> handle_event en os e data_sz ag"
  shows "dedup_wf ag'" and "ag_flow ag' = flow"
    and "(\<And>j. pending j ag < 2 ^ 32 - 1) \<Longrightarrow>
      reported k ag' + pending k ag' =
        reported k ag + pending k ag + (if verdict_key en e f = Some k then 1 else 0)"
proof -
  let ?ag0 = "ag\<lparr>ag_flow := flow, ag_telemetry := bump_counters e f (ag_telemetry ag)\<rparr>"
  define proc' where "proc' = (if \<not> enr then enrich_process os (e_pid e) (e_uid e) else proc)"
  have w0: "dedup_wf ?ag0" using wf by (simp add: dedup_wf_def)
  have f0: "reported j ?ag0 = reported j ag" "pending j ?ag0 = pending j ag" for j
    by (simp_all add: reported_def pending_def)
  have emit: "dedup_wf (emit_finding en os e proc' f 0 x) = dedup_wf x"
    "ag_flow (emit_finding en os e proc' f 0 x) = ag_flow x"
    "reported k (emit_finding en os e proc' f 0 x) = reported k x + (if event_key e f = k then 1 else 0)"
    "pending k (emit_finding en os e proc' f 0 x) = pending k x" for x
    by (simp_all add: dedup_wf_def ledger_simps occurrences_def pending_def)
  have "dedup_wf ag' \<and> ag_flow ag' = flow \<and> ((\<forall>j. pending j ag < 2 ^ 32 - 1) \<longrightarrow>
      reported k ag' + pending k ag' =
        reported k ag + pending k ag + (if verdict_key en e f = Some k then 1 else 0))"
  proof (cases "reportable en f")
    case False
    then have "ag' = ?ag0" unfolding ag'_def by (simp add: handle_event_step [OF sz a])
    then show ?thesis using w0 f0 False by (simp add: verdict_key_def)
  next
    case True
    show ?thesis
    proof (cases "op_all_events (en_opts en)")
      case all: True
      then have "ag' = emit_finding en os e proc' f 0 ?ag0"
        unfolding ag'_def using True by (simp add: handle_event_step [OF sz a] proc'_def)
      then show ?thesis using w0 f0 True by (simp add: emit verdict_key_def)
    next
      case False
      obtain b ag1 where s: "suppress_duplicate en os e f ?ag0 = (b, ag1)"
        by (cases "suppress_duplicate en os e f ?ag0")
      note l = suppress_ledger [OF s w0 e]
      have ag': "ag' = (if b then ag1 else emit_finding en os e proc' f 0 ag1)"
        unfolding ag'_def using True False by (simp add: handle_event_step [OF sz a] s proc'_def)
      show ?thesis
      proof (cases b)
        case b: True
        then show ?thesis using l(1,2) l(3) [OF b, of k] True by (auto simp: ag' f0 verdict_key_def)
      next
        case b: False
        then show ?thesis using l(1,2) l(4) [OF b, of k] True by (auto simp: ag' f0 verdict_key_def emit)
      qed
    qed
  qed
  then show "dedup_wf ag'" "ag_flow ag' = flow"
    "(\<And>j. pending j ag < 2 ^ 32 - 1) \<Longrightarrow>
      reported k ag' + pending k ag' =
        reported k ag + pending k ag + (if verdict_key en e f = Some k then 1 else 0)"
    by blast+
qed

definition deliver :: "agent_env \<Rightarrow> delivery \<Rightarrow> agent \<Rightarrow> agent" where
  "deliver en d ag = (case d of (os, e, data_sz) \<Rightarrow> handle_event en os e data_sz ag)"

definition delivery_ok :: "delivery \<Rightarrow> bool" where
  "delivery_ok d \<longleftrightarrow> wf_event (fst (snd d))"

definition delivery_key :: "agent_env \<Rightarrow> delivery \<Rightarrow> agent \<Rightarrow> dedup_key option" where
  "delivery_key en d ag = (case d of (os, e, data_sz) \<Rightarrow>
     if data_sz < sizeof_edr_event then None
     else verdict_key en e (fst (assess en os e (ag_flow ag))))"

lemma deliver_pair:
  "deliver en (os, e, data_sz) ag = handle_event en os e data_sz ag"
  "delivery_key en (os, e, data_sz) ag = (if data_sz < sizeof_edr_event then None
     else verdict_key en e (fst (assess en os e (ag_flow ag))))"
  by (simp_all add: deliver_def delivery_key_def)

lemma init_agent_facts:
  "dedup_wf init_agent" "reported k init_agent = 0" "pending k init_agent = 0"
  "ag_flow init_agent = init_flow_store"
  by (simp_all add: init_agent_def dedup_wf_def cache_wf_def reported_def pending_def list_all_iff)

interpretation agent_ledger: report_ledger dedup_wf delivery_ok reported pending "deliver en"
  "delivery_key en" "flush_dedup_cache en os" "2 ^ 32 - 1" for en os
proof unfold_locales
  fix s d k
  assume s: "dedup_wf s" and d: "delivery_ok d"
  obtain os' e sz where de: "d = (os', e, sz)" by (cases d)
  obtain f enr proc flow where a: "assess en os' e (ag_flow s) = (f, enr, proc, flow)"
    by (cases "assess en os' e (ag_flow s)")
  have e: "wf_event e" using d by (simp add: de delivery_ok_def)
  show "dedup_wf (deliver en d s)"
    using s handle_event_ledger(1) [OF s e _ a]
    by (cases "sz < sizeof_edr_event") (simp_all add: de deliver_def assess_finding_small)
  show "reported k (deliver en d s) + pending k (deliver en d s) =
      reported k s + pending k s + (if delivery_key en d s = Some k then 1 else 0)"
    if "\<And>j. pending j s < 2 ^ 32 - 1"
    using handle_event_ledger(3) [OF s e _ a that, of sz k]
    by (cases "sz < sizeof_edr_event") (simp_all add: de deliver_def delivery_key_def a assess_finding_small)
next
  show "reported k (flush_dedup_cache en os s) = reported k s + pending k s" if "dedup_wf s" for s k
    by (rule flush_ledger(1) [OF that])
qed

lemma run_deliver: "agent_ledger.run en ds ag = handle_events en ds ag"
  by (induction en ds ag rule: handle_events.induct) (simp_all add: deliver_pair)

lemma handle_event_flow:
  assumes "dedup_wf ag" and "wf_event e" and "\<not> data_sz < sizeof_edr_event"
  shows "ag_flow (handle_event en os e data_sz ag) = snd (snd (snd (assess en os e (ag_flow ag))))"
  using handle_event_ledger(2) [OF assms] by (cases "assess en os e (ag_flow ag)") auto

lemma ledger_keys:
  "dedup_wf ag \<Longrightarrow> \<forall>d \<in> set ds. delivery_ok d \<Longrightarrow>
   agent_ledger.keys en ds ag =
     map (\<lambda>(e, f). event_key e f) (filter (\<lambda>(e, f). reportable en f) (verdicts en ds (ag_flow ag)))"
proof (induction en ds ag rule: handle_events.induct)
  case (2 en os e sz ds ag)
  have e: "wf_event e" using "2.prems"(2) by (simp add: delivery_ok_def)
  show ?case
  proof (cases "sz < sizeof_edr_event")
    case True
    then show ?thesis using 2 by (simp add: deliver_pair assess_finding_small)
  next
    case False
    obtain f enr proc flow where a: "assess en os e (ag_flow ag) = (f, enr, proc, flow)"
      by (cases "assess en os e (ag_flow ag)")
    note l = handle_event_ledger(1,2) [OF "2.prems"(1) e False a]
    have "agent_ledger.keys en ds (handle_event en os e sz ag) = map (\<lambda>(e, f). event_key e f)
        (filter (\<lambda>(e, f). reportable en f) (verdicts en ds flow))"
      using "2.IH" l "2.prems"(2) by simp
    then show ?thesis using False by (simp add: deliver_pair verdict_key_def a)
  qed
qed simp

section \<open>What the log may hold\<close>

text \<open>In normal mode every finding the cache or the log holds passed the severity floor.\<close>

definition floor_ok :: "agent_env \<Rightarrow> agent \<Rightarrow> bool" where
  "floor_ok en ag \<longleftrightarrow> list_all (\<lambda>(e, f, n). alertable (en_rules en) f) (ag_log ag) \<and>
     list_all (\<lambda>d. de_active d \<longrightarrow> alertable (en_rules en) (de_finding d)) (ag_dedup ag)"

lemma floor_emit:
  "floor_ok en ag \<Longrightarrow> alertable (en_rules en) f \<Longrightarrow> floor_ok en (emit_finding en os e proc f n ag)"
  by (simp add: floor_ok_def ledger_simps)

lemma floor_emit_entry:
  assumes "floor_ok en ag" and "i < length (ag_dedup ag)"
  shows "floor_ok en (emit_dedup_entry en os i ag)"
proof -
  have d: "de_active (ag_dedup ag ! i) \<longrightarrow> alertable (en_rules en) (de_finding (ag_dedup ag ! i))"
    using assms by (auto simp: floor_ok_def list_all_length)
  have c: "floor_ok en (clear_dedup_entry i a)" if "floor_ok en a" for a
    using that by (simp add: floor_ok_def clear_dedup_entry_def list_all_update)
  show ?thesis using assms(1) d by (auto simp: emit_dedup_entry_def Let_def intro!: c floor_emit)
qed

lemma floor_suppress:
  assumes "floor_ok en ag" and "suppress_duplicate en os e f ag = (b, ag')" and "dedup_wf ag"
    and "wf_event e" and "alertable (en_rules en) f"
  shows "floor_ok en ag'"
  using assms(2-4)
proof (cases rule: suppress_duplicate_cases)
  case (counted i)
  then show ?thesis using assms(1)
    by (auto simp: floor_ok_def count_up_def list_all_length nth_list_update)
next
  case (expired i)
  then show ?thesis using assms(1) floor_emit_entry by simp
next
  case (entered ag1)
  let ?ag0 = "ag\<lparr>ag_dedup_cursor := ag_dedup_cursor ag + 1\<rparr>"
  have "floor_ok en ?ag0" using assms(1) by (simp add: floor_ok_def)
  moreover have "slot_of ag < length (ag_dedup ?ag0)"
    using slot_of_less assms(3) by (simp add: dedup_wf_def cache_wf_def)
  ultimately have "floor_ok en ag1" using floor_emit_entry by (simp add: entered(3))
  then show ?thesis using assms(5)
    by (simp add: entered(4) floor_ok_def fill_entry_def list_all_update)
qed

lemma floor_handle:
  assumes "floor_ok en ag" and "dedup_wf ag" and "wf_event e" and "\<not> op_all_events (en_opts en)"
  shows "floor_ok en (handle_event en os e sz ag)"
proof (cases "sz < sizeof_edr_event")
  case False
  obtain f enr proc flow where a: "assess en os e (ag_flow ag) = (f, enr, proc, flow)"
    by (cases "assess en os e (ag_flow ag)")
  let ?ag0 = "ag\<lparr>ag_flow := flow, ag_telemetry := bump_counters e f (ag_telemetry ag)\<rparr>"
  have f0: "floor_ok en ?ag0" "dedup_wf ?ag0" using assms(1,2) by (simp_all add: floor_ok_def dedup_wf_def)
  obtain b ag1 where s: "suppress_duplicate en os e f ?ag0 = (b, ag1)"
    by (cases "suppress_duplicate en os e f ?ag0")
  show ?thesis
  proof (cases "alertable (en_rules en) f")
    case True
    then have "floor_ok en ag1" using floor_suppress [OF f0(1) s f0(2) assms(3)] by simp
    then show ?thesis using True assms(4)
      by (auto simp: handle_event_step [OF False a] s Let_def reportable_def intro: floor_emit)
  next
    case no: False
    then show ?thesis using f0 assms(4) by (simp add: handle_event_step [OF False a] reportable_def)
  qed
qed (use assms in \<open>simp add: handle_event_def\<close>)

lemma floor_run:
  "floor_ok en ag \<Longrightarrow> dedup_wf ag \<Longrightarrow> \<forall>d \<in> set ds. delivery_ok d \<Longrightarrow> \<not> op_all_events (en_opts en) \<Longrightarrow>
   floor_ok en (handle_events en ds ag) \<and> dedup_wf (handle_events en ds ag)"
proof (induction en ds ag rule: handle_events.induct)
  case (2 en os e sz ds ag)
  have e: "wf_event e" using "2.prems"(3) by (simp add: delivery_ok_def)
  have "dedup_wf (handle_event en os e sz ag)"
    using handle_event_ledger(1) [OF "2.prems"(2) e] "2.prems"(2)
    by (cases "sz < sizeof_edr_event"; cases "assess en os e (ag_flow ag)")
      (simp_all add: assess_finding_small)
  moreover have "floor_ok en (handle_event en os e sz ag)"
    using floor_handle "2.prems" e by simp
  ultimately show ?case using "2.IH" "2.prems" by simp
qed simp

section \<open>Counters\<close>

text \<open>The five event counters: their machine words, and the numbers these stand for.\<close>

definition counter_words :: "asic_telemetry \<Rightarrow> c_int list" where
  "counter_words g = [exec_events g, mem_events g, file_events g, net_events g, suspicious_events g]"

definition counters :: "asic_telemetry \<Rightarrow> int list" where
  "counters g = map sint (counter_words g)"

text \<open>How many of the decided events each counter is meant to count.\<close>

definition tally :: "(edr_event \<times> edr_finding) list \<Rightarrow> int list" where
  "tally vs = map (\<lambda>p. int (length (filter p vs)))
     [\<lambda>(e, f). e_type e = EDR_EVENT_EXEC,
      \<lambda>(e, f). e_type e = EDR_EVENT_MPROTECT \<or> e_type e = EDR_EVENT_MMAP,
      \<lambda>(e, f). e_type e = EDR_EVENT_OPENAT,
      \<lambda>(e, f). e_type e = EDR_EVENT_CONNECT,
      \<lambda>(e, f). EDR_SEV_INFO < f_severity f]"

definition add_counts :: "c_int list \<Rightarrow> int list \<Rightarrow> c_int list" where
  "add_counts ws ns = map2 (\<lambda>w n. w + of_int n) ws ns"

lemma counters_bump: "counter_words (bump_counters e f g) = add_counts (counter_words g) (tally [(e, f)])"
  by (auto simp: counter_words_def bump_counters_def tally_def add_counts_def)

lemma add_counts_Nil: "add_counts (counter_words g) (tally []) = counter_words g"
  by (simp add: add_counts_def counter_words_def tally_def)

lemma add_counts_Cons:
  "add_counts (add_counts (counter_words g) (tally [v])) (tally vs) = add_counts (counter_words g) (tally (v # vs))"
  by (cases v) (simp add: add_counts_def counter_words_def tally_def algebra_simps)

lemma tally_bounds: "n \<in> set (tally vs) \<Longrightarrow> 0 \<le> n \<and> n \<le> int (length vs)"
  by (auto simp: tally_def)

lemma counters_emit: "counter_words (ag_telemetry (emit_finding en os e proc f n ag)) = counter_words (ag_telemetry ag)"
  by (simp add: emit_finding_def Let_def counter_words_def add_traffic_def add_alert_def)

lemma counters_emit_entry:
  "counter_words (ag_telemetry (emit_dedup_entry en os i ag)) = counter_words (ag_telemetry ag)"
  by (simp add: emit_dedup_entry_def Let_def clear_dedup_entry_def counters_emit)

lemma counters_suppress:
  "suppress_duplicate en os e f ag = (b, ag') \<Longrightarrow> counter_words (ag_telemetry ag') = counter_words (ag_telemetry ag)"
  by (auto simp: suppress_duplicate_def Let_def counters_emit_entry split: option.splits if_splits)

lemma counters_handle:
  assumes "\<not> sz < sizeof_edr_event" and "assess en os e (ag_flow ag) = (f, enr, proc, flow)"
  shows "counter_words (ag_telemetry (handle_event en os e sz ag)) =
    add_counts (counter_words (ag_telemetry ag)) (tally [(e, f)])"
proof -
  let ?ag0 = "ag\<lparr>ag_flow := flow, ag_telemetry := bump_counters e f (ag_telemetry ag)\<rparr>"
  obtain b ag1 where s: "suppress_duplicate en os e f ?ag0 = (b, ag1)"
    by (cases "suppress_duplicate en os e f ?ag0")
  show ?thesis
    by (simp add: handle_event_step [OF assms] s counters_emit counters_suppress [OF s] counters_bump Let_def)
qed

lemma counters_run:
  "dedup_wf ag \<Longrightarrow> \<forall>d \<in> set ds. delivery_ok d \<Longrightarrow>
   counter_words (ag_telemetry (handle_events en ds ag)) =
     add_counts (counter_words (ag_telemetry ag)) (tally (verdicts en ds (ag_flow ag)))"
proof (induction en ds ag rule: handle_events.induct)
  case (1 en ag)
  then show ?case by (simp add: add_counts_Nil)
next
  case (2 en os e sz ds ag)
  have e: "wf_event e" using "2.prems"(2) by (simp add: delivery_ok_def)
  show ?case
  proof (cases "sz < sizeof_edr_event")
    case True
    then show ?thesis using 2 by (simp add: assess_finding_small)
  next
    case False
    obtain f enr proc flow where a: "assess en os e (ag_flow ag) = (f, enr, proc, flow)"
      by (cases "assess en os e (ag_flow ag)")
    note l = handle_event_ledger(1,2) [OF "2.prems"(1) e False a]
    have "counter_words (ag_telemetry (handle_events en ds (handle_event en os e sz ag))) =
        add_counts (add_counts (counter_words (ag_telemetry ag)) (tally [(e, f)])) (tally (verdicts en ds flow))"
      using "2.IH" l "2.prems"(2) by (simp add: counters_handle [OF False a])
    then show ?thesis using False
      by (simp add: a add_counts_Cons)
  qed
qed

section \<open>A run to try the properties on\<close>

text \<open>The built-in policy, and the same request for writable and executable memory twice.\<close>

definition default_env :: agent_env where
  "default_env = \<lparr>en_rules = init_default_rules, en_metadata = init_agent_metadata sample_os None,
     en_opts = \<lparr>op_config_path = ''config/rules.conf'', op_bpf_path = ''asic_sensor.bpf.o'', op_jsonl = False,
       op_console = True, op_all_events = False, op_check_config = False\<rparr>\<rparr>"

definition rwx_finding :: edr_finding where
  "rwx_finding = make_finding EDR_SEV_CRITICAL (Rid_Lit ''mem.rwx_mprotect'') ''RWX memory request''"

definition rwx_twice :: "delivery list" where
  "rwx_twice = replicate 2 (sample_os, rwx_event, 344)"

lemma rwx_local: "evaluate_local init_default_rules rwx_event = Some rwx_finding"
proof -
  have m: "e_type rwx_event = EDR_EVENT_MPROTECT" by (simp add: rwx_event_def)
  have "length (e_comm rwx_event) < COMM_LEN" by (simp add: rwx_event_def)
  then have "comm_allowed_for_jit init_default_rules (e_comm rwx_event) \<longleftrightarrow>
      e_comm rwx_event \<in> set (vt_rows (ru_jit_allow_comm init_default_rules))"
    by (rule comm_allowed_rows [OF _ default_jit_fits])
  then show ?thesis
    using evaluate_local_memory [of rwx_event init_default_rules] m
    by (simp add: rwx_request memory_rule_cases init_default_controls rwx_finding_def memory_reason_def
        effective_rule_severity_map [OF init_default_rules_wf]) (simp add: rwx_event_def)
qed

lemma rwx_assess: "assess default_env os rwx_event fl = (rwx_finding, False, zero_context, fl)"
  by (simp add: assess_def evaluate_event_def default_env_def rwx_local Let_def) (simp add: rwx_event_def)

lemma rwx_verdicts: "verdicts default_env rwx_twice fl = [(rwx_event, rwx_finding), (rwx_event, rwx_finding)]"
  by (simp add: rwx_twice_def rwx_assess sizeof_edr_event_value numeral_2_eq_2)

lemma rwx_ok: "\<forall>d \<in> set rwx_twice. delivery_ok d" "length rwx_twice = 2"
  "\<not> op_all_events (en_opts default_env)" "reportable default_env rwx_finding"
  by (auto simp: rwx_twice_def delivery_ok_def wf_event_def rwx_event_def zero_event_def is_cstr_def
      default_env_def reportable_def alertable_def rwx_finding_def make_finding_def init_default_fields
      less_edr_severity_def less_eq_edr_severity_def)

section \<open>Properties\<close>

text \<open>
  C1.  No alert is lost and none is counted twice: over any run of well-formed events from the start,
  once the cache is flushed, the emitted records stand, for every identity a finding can have, for
  exactly as many occurrences as the run has reportable findings of that identity, whatever was
  suppressed, expired or pushed out in between.
\<close>

theorem alerts_conserved:
  assumes "\<forall>d \<in> set ds. delivery_ok d" and "length ds < 2 ^ 32"
  shows "reported k (flush_dedup_cache en os (handle_events en ds init_agent)) =
    count_list (map (\<lambda>(e, f). event_key e f)
      (filter (\<lambda>(e, f). reportable en f) (verdicts en ds init_flow_store))) k"
  using agent_ledger.settled [where s = init_agent and ds = ds and en = en and os = os and k = k] assms
  by (simp add: init_agent_facts run_deliver ledger_keys)

theorem alerts_conserved_witness:
  "reported (event_key rwx_event rwx_finding)
     (flush_dedup_cache default_env sample_os (handle_events default_env rwx_twice init_agent)) = 2"
  using alerts_conserved [OF rwx_ok(1), of "event_key rwx_event rwx_finding" default_env sample_os] rwx_ok
  by (simp add: rwx_verdicts)

text \<open>
  C16.  The severity floor: in normal mode nothing informational and nothing below the configured
  minimum is ever written, neither at once nor when the cache is flushed.
\<close>

theorem severity_floor:
  assumes "\<forall>d \<in> set ds. delivery_ok d" and "\<not> op_all_events (en_opts en)"
  shows "list_all (\<lambda>(e, f, n). EDR_SEV_INFO < f_severity f \<and> ru_min_severity (en_rules en) \<le> f_severity f)
    (ag_log (flush_dedup_cache en os (handle_events en ds init_agent)))"
proof -
  let ?ag = "handle_events en ds init_agent"
  have start: "floor_ok en init_agent"
    by (simp add: floor_ok_def init_agent_def list_all_iff)
  have r: "floor_ok en ?ag" "dedup_wf ?ag"
    using floor_run [OF start _ assms] init_agent_facts(1) by simp_all
  have "floor_ok en (fold (emit_dedup_entry en os) [0..<n] ?ag) \<and>
      length (ag_dedup (fold (emit_dedup_entry en os) [0..<n] ?ag)) = DEDUP_ENTRIES"
    if "n \<le> DEDUP_ENTRIES" for n
    using that
  proof (induction n)
    case (Suc n)
    then show ?case
      using floor_emit_entry [of en "fold (emit_dedup_entry en os) [0..<n] ?ag" n os]
        emit_dedup_entry_ledger(1) [of n "fold (emit_dedup_entry en os) [0..<n] ?ag" en os]
      by simp
  qed (use r in \<open>simp add: dedup_wf_def cache_wf_def\<close>)
  then have "floor_ok en (flush_dedup_cache en os ?ag)" by (simp add: flush_dedup_cache_def)
  then show ?thesis by (simp add: floor_ok_def alertable_def)
qed

theorem severity_floor_witness:
  "list_all (\<lambda>(e, f, n). EDR_SEV_INFO < f_severity f \<and> EDR_SEV_WARN \<le> f_severity f)
     (ag_log (flush_dedup_cache default_env sample_os (handle_events default_env rwx_twice init_agent)))"
  using severity_floor [OF rwx_ok(1,3), of sample_os]
  by (simp add: default_env_def init_default_fields)

lemma length_verdicts: "length (verdicts en ds flow) \<le> length ds"
  by (induction en ds flow rule: verdicts.induct) (auto split: prod.split intro: le_SucI)

text \<open>
  C17.  The telemetry counters are exact: after any run of fewer than \<open>2 ^ 31\<close> deliveries, which is what
  their C type can count, they equal the numbers of events of each kind with a full record, and of
  findings above informational, whether or not they were reported; none of them has overflowed.
\<close>

theorem counters_exact:
  assumes "\<forall>d \<in> set ds. delivery_ok d" and "length ds < 2 ^ 31"
  shows "counters (ag_telemetry (handle_events en ds init_agent)) =
    tally (verdicts en ds init_flow_store)"
proof -
  let ?vs = "verdicts en ds init_flow_store"
  have "counter_words (ag_telemetry init_agent) = [0, 0, 0, 0, 0]"
    by (simp add: counter_words_def init_agent_def init_telemetry_def)
  then have w: "counter_words (ag_telemetry (handle_events en ds init_agent)) = map of_int (tally ?vs)"
    using counters_run [OF init_agent_facts(1) assms(1), of en]
    by (simp add: init_agent_facts add_counts_def tally_def)
  have "sint (of_int n :: c_int) = n" if "n \<in> set (tally ?vs)" for n
    using tally_bounds [OF that] length_verdicts [of en ds init_flow_store] assms(2)
    by (intro sint_c_int) auto
  then have "map sint (map (of_int :: int \<Rightarrow> c_int) (tally ?vs)) = tally ?vs"
    by (simp add: map_idI)
  then show ?thesis by (simp only: counters_def w)
qed

theorem counters_exact_witness:
  "counters (ag_telemetry (handle_events default_env rwx_twice init_agent)) = [0, 2, 0, 0, 2]"
proof -
  have "length rwx_twice < 2 ^ 31" by (simp add: rwx_twice_def)
  from counters_exact [OF rwx_ok(1) this, of default_env] show ?thesis
    by (simp add: rwx_verdicts tally_def) (simp add: rwx_event_def rwx_finding_def make_finding_def less_edr_severity_def)
qed

end
