(* ===== verification/Scenarios.thy ===== *)
theory Scenarios
  imports Agent
begin

text \<open>
  Behaviours that need several events (\<open>dev/host/asic_main.c\<close>): when a repeated finding is held back,
  what happens after the suppression window, the run that reports everything, and the flow memory of
  a run, from a sensitive read to the transfer that follows it.
\<close>

section \<open>Repeated findings\<close>

lemma entry_unique:
  assumes "cache_wf ds" and "c \<in> set ds" and "d \<in> set ds" and "de_active c" and "de_active d"
    and "entry_key c = entry_key d"
  shows "c = d"
proof -
  have "inj_on entry_key (set (filter de_active ds))"
    using assms(1) by (simp add: cache_wf_def distinct_map)
  then show ?thesis using assms by (auto dest: inj_onD)
qed

lemma update_removes:
  "distinct (map g (filter p xs)) \<Longrightarrow> i < length xs \<Longrightarrow> p (xs ! i) \<Longrightarrow> \<not> p y \<Longrightarrow>
   g (xs ! i) \<notin> g ` {x \<in> set (xs[i := y]). p x}"
proof (induction xs arbitrary: i)
  case (Cons x xs)
  show ?case
  proof (cases i)
    case 0
    then show ?thesis using Cons.prems by auto
  next
    case (Suc j)
    have "g (xs ! j) \<notin> g ` {x \<in> set (xs[j := y]). p x}"
      using Cons.IH [of j] Cons.prems Suc by (auto split: if_splits)
    moreover have "g (xs ! j) \<noteq> g x" if "p x"
    proof
      assume "g (xs ! j) = g x"
      moreover have "xs ! j \<in> set (filter p xs)" using Cons.prems Suc by simp
      ultimately show False using Cons.prems(1) that by (metis (no_types) distinct.simps(2) filter.simps(2) imageI list.set_map list.simps(9))
    qed
    ultimately show ?thesis using Suc by auto
  qed
qed simp

text \<open>The entry that decides about a finding, if the cache has one.\<close>

definition remembered :: "edr_event \<Rightarrow> edr_finding \<Rightarrow> agent \<Rightarrow> dedup_entry set" where
  "remembered e f ag = {d \<in> set (ag_dedup ag). de_active d \<and> entry_key d = event_key e f}"

lemma suppress_outcome:
  assumes wf: "dedup_wf ag" and e: "wf_event e"
  obtains
    (unknown) "remembered e f ag = {}" and "\<not> fst (suppress_duplicate en os e f ag)"
  | (known) i where "i < length (ag_dedup ag)" and "remembered e f ag = {ag_dedup ag ! i}"
      and "fst (suppress_duplicate en os e f ag) \<longleftrightarrow>
        e_timestamp_ns e - de_last_seen_ns (ag_dedup ag ! i) < ru_dedup_window_ns (en_rules en)"
      and "\<not> fst (suppress_duplicate en os e f ag) \<Longrightarrow>
        snd (suppress_duplicate en os e f ag) = emit_dedup_entry en os i ag"
proof (cases "first_index (\<lambda>d. same_dedup_key d e f) (ag_dedup ag)")
  case None
  have "remembered e f ag = {}"
    using find_entry(2) [OF wf [unfolded dedup_wf_def] e None] by (auto simp: remembered_def image_iff)
  moreover have "\<not> fst (suppress_duplicate en os e f ag)"
    using None by (simp add: suppress_duplicate_def Let_def)
  ultimately show thesis by (rule unknown)
next
  case (Some i)
  let ?d = "ag_dedup ag ! i"
  note s = find_entry(1) [OF wf [unfolded dedup_wf_def] e Some]
  have one: "remembered e f ag = {?d}"
    using s entry_unique [OF wf [unfolded dedup_wf_def], of _ ?d] by (auto simp: remembered_def)
  have w: "e_timestamp_ns e - de_last_seen_ns ?d < ru_dedup_window_ns (en_rules en) \<Longrightarrow>
      0 < ru_dedup_window_ns (en_rules en)"
    using le_less_trans word_zero_le by blast
  show thesis
  proof (rule known [of i])
    show "fst (suppress_duplicate en os e f ag) \<longleftrightarrow>
        e_timestamp_ns e - de_last_seen_ns ?d < ru_dedup_window_ns (en_rules en)"
      using Some w by (auto simp: suppress_duplicate_def Let_def)
    show "snd (suppress_duplicate en os e f ag) = emit_dedup_entry en os i ag"
      if "\<not> fst (suppress_duplicate en os e f ag)"
      using that Some by (auto simp: suppress_duplicate_def Let_def split: if_splits)
  qed (use s one in simp_all)
qed

text \<open>An expired entry is cleared, not renewed.\<close>

lemma expired_cleared:
  assumes wf: "dedup_wf ag" and e: "wf_event e" and d: "d \<in> remembered e f ag"
    and late: "ru_dedup_window_ns (en_rules en) \<le> e_timestamp_ns e - de_last_seen_ns d"
  shows "\<not> fst (suppress_duplicate en os e f ag)"
    and "remembered e f (snd (suppress_duplicate en os e f ag)) = {}"
proof -
  have "\<not> fst (suppress_duplicate en os e f ag) \<and>
      remembered e f (snd (suppress_duplicate en os e f ag)) = {}"
    using wf e
  proof (cases rule: suppress_outcome [where f = f and en = en and os = os])
    case unknown
    then show ?thesis using d by simp
  next
    case (known i)
    let ?ds = "ag_dedup ag"
    have di: "d = ?ds ! i" using d known(2) by simp
    have no: "\<not> fst (suppress_duplicate en os e f ag)" using known(3) late di by simp
    have ds: "ag_dedup (snd (suppress_duplicate en os e f ag)) = ?ds[i := zero_dedup_entry]"
      using known(4) [OF no] emit_dedup_entry_ledger(1) [OF known(1)] by simp
    have "distinct (map entry_key (filter de_active ?ds))"
      using wf by (simp add: dedup_wf_def cache_wf_def)
    then have "entry_key (?ds ! i) \<notin> entry_key ` {x \<in> set (?ds[i := zero_dedup_entry]). de_active x}"
      by (rule update_removes) (use known(1) d di in \<open>simp_all add: remembered_def\<close>)
    moreover have "entry_key (?ds ! i) = event_key e f" using d di by (simp add: remembered_def)
    ultimately have "\<forall>x \<in> set (?ds[i := zero_dedup_entry]). de_active x \<longrightarrow> entry_key x \<noteq> event_key e f"
      by (simp add: image_iff) metis
    then have "remembered e f (snd (suppress_duplicate en os e f ag)) = {}"
      unfolding remembered_def ds by simp
    then show ?thesis using no by simp
  qed
  then show "\<not> fst (suppress_duplicate en os e f ag)"
    "remembered e f (snd (suppress_duplicate en os e f ag)) = {}" by simp_all
qed

section \<open>The flow memory of a run\<close>

text \<open>The operations on the flow memory one delivery makes; they depend on the event and its context only.\<close>

definition feeds_memory :: "edr_rules \<Rightarrow> edr_event \<Rightarrow> bool" where
  "feeds_memory r e \<longleftrightarrow> rule_id_matches_family
     (rule_text r (f_rule_id (case evaluate_local r e of Some f \<Rightarrow> f | None \<Rightarrow> observed)))
     ''file.sensitive_read''"

fun delivery_ops :: "edr_rules \<Rightarrow> delivery \<Rightarrow> flow_op list" where
  "delivery_ops r (os, e, data_sz) =
     (let root = flow_root_pid e (enrich_process os (e_pid e) (e_uid e));
          t = e_timestamp_ns e
      in if data_sz < sizeof_edr_event then []
         else if e_type e = EDR_EVENT_EXEC then [Touch root t (note_exec e)]
         else if e_type e = EDR_EVENT_CONNECT
         then Touch root t (note_connect e) # (if public_transfer e then [Lookup root t] else [])
         else if e_type e = EDR_EVENT_OPENAT \<and> feeds_memory r e
         then [Touch root t (note_sensitive_read e)] else [])"

lemma evaluate_flow_snd:
  "snd (evaluate_event r e proc st) = (if evaluate_local r e = None \<and> public_transfer e
     then snd (flow_state_lookup (flow_root_pid e proc) (e_timestamp_ns e) st) else st)"
proof (cases "public_transfer e")
  case True
  then have "evaluate_local r e = None" by (simp add: evaluate_local_def public_transfer_def)
  moreover have "snd (evaluate_connect_flow r e proc st) =
      snd (flow_state_lookup (flow_root_pid e proc) (e_timestamp_ns e) st)"
    using True by (simp add: evaluate_connect_flow_def public_transfer_def Let_def split: prod.split)
  ultimately show ?thesis using True by (auto simp: evaluate_event_def split: prod.splits option.splits)
next
  case False
  then have "evaluate_connect_flow r e proc st = (None, st)"
    by (auto simp: evaluate_connect_flow_def public_transfer_def)
  then show ?thesis using False by (simp add: evaluate_event_def split: option.split)
qed

lemma public_transfer_local: "public_transfer e \<Longrightarrow> evaluate_local r e = None"
  by (simp add: evaluate_local_def public_transfer_def)

lemma open_verdict:
  assumes "e_type e = EDR_EVENT_OPENAT"
  shows "evaluate_event r e proc st = (case evaluate_local r e of Some f \<Rightarrow> f | None \<Rightarrow> observed, st)"
  using assms by (simp add: evaluate_event_def evaluate_connect_flow_def split: option.split)

lemma assess_flow:
  assumes "\<not> data_sz < sizeof_edr_event"
  shows "snd (snd (snd (assess en os e fl))) = fold flow_step (delivery_ops (en_rules en) (os, e, data_sz)) fl"
proof (cases "e_type e = EDR_EVENT_OPENAT")
  case True
  then have n: "\<not> public_transfer e" by (simp add: public_transfer_def)
  show ?thesis using assms True n
    by (simp add: assess_def Let_def open_verdict [OF True] feeds_memory_def flow_state_observe_sensitive_read_def)
next
  case no: False
  let ?proc = "enrich_process os (e_pid e) (e_uid e)"
  have s: "snd (snd (snd (assess en os e fl))) = snd (evaluate_event (en_rules en) e
      (if e_type e = EDR_EVENT_EXEC \<or> e_type e = EDR_EVENT_CONNECT then ?proc else zero_context)
      (if e_type e = EDR_EVENT_EXEC \<or> e_type e = EDR_EVENT_CONNECT
       then flow_state_observe_event e ?proc fl else fl))"
    using no by (auto simp: assess_def Let_def split: prod.split)
  show ?thesis
    unfolding s evaluate_flow_snd using assms no public_transfer_local [of e "en_rules en"]
    by (auto simp: flow_state_observe_event_def Let_def public_transfer_def)
qed

definition run_ops :: "edr_rules \<Rightarrow> delivery list \<Rightarrow> flow_op list" where
  "run_ops r ds = concat (map (delivery_ops r) ds)"

definition run_flow :: "edr_rules \<Rightarrow> delivery list \<Rightarrow> flow_store" where
  "run_flow r ds = fold flow_step (run_ops r ds) init_flow_store"

lemma verdicts_append:
  "verdicts en (ds @ ds') fl =
     verdicts en ds fl @ verdicts en ds' (fold flow_step (run_ops (en_rules en) ds) fl)"
proof (induction en ds fl rule: verdicts.induct)
  case (2 en os e sz ds fl)
  show ?case
  proof (cases "sz < sizeof_edr_event")
    case True
    then show ?thesis using 2 by (simp add: run_ops_def)
  next
    case False
    obtain f enr proc fl' where a: "assess en os e fl = (f, enr, proc, fl')"
      by (cases "assess en os e fl")
    have fl': "fl' = fold flow_step (delivery_ops (en_rules en) (os, e, sz)) fl"
      using assess_flow [OF False, of en os e fl] a by simp
    have "verdicts en ((os, e, sz) # ds @ ds') fl = (e, f) # verdicts en (ds @ ds') fl'"
      using False a by simp
    also have "verdicts en (ds @ ds') fl' = verdicts en ds fl' @
        verdicts en ds' (fold flow_step (run_ops (en_rules en) ds) fl')"
      using "2.IH" (2) [OF False] a by simp
    finally show ?thesis using False a by (simp add: run_ops_def fl' del: delivery_ops.simps)
  qed
qed (simp add: run_ops_def)

text \<open>The unbounded map keeps a sensitive read for as long as the window, whatever its root does.\<close>

definition read_kept :: "u64 \<Rightarrow> u64 \<Rightarrow> flow_state_entry option \<Rightarrow> bool" where
  "read_kept t now v \<longleftrightarrow> (\<exists>e. v = Some e \<and> fs_active e \<and> fs_sensitive_read_seen e \<and>
     t \<le> fs_last_seen_ns e \<and> fs_last_seen_ns e \<le> now)"

definition keeps_read :: "flow_op \<Rightarrow> bool" where
  "keeps_read x \<longleftrightarrow> (case x of Lookup _ _ \<Rightarrow> True
     | Touch _ _ f \<Rightarrow> keeps_key f \<and> (\<forall>e. fs_sensitive_read_seen e \<longrightarrow> fs_sensitive_read_seen (f e)))"

lemma delivery_keeps_read: "x \<in> set (delivery_ops r d) \<Longrightarrow> keeps_read x \<and> op_ok x"
  by (cases d) (auto simp: keeps_read_def Let_def note_exec_def note_connect_def note_sensitive_read_def
      split: if_splits)

lemma within_window:
  assumes "t \<le> seen" and "seen \<le> now" and "now \<le> stop" and "stop - t \<le> (window :: u64)"
  shows "now - seen \<le> window"
proof -
  have "unat now \<le> unat stop" "unat t \<le> unat seen" "unat seen \<le> unat now" "unat t \<le> unat stop"
    using assms(1-3) order.trans by (auto simp: word_le_nat_alt [symmetric])
  then show ?thesis using assms by (simp add: word_le_nat_alt unat_sub)
qed

lemma read_kept_live:
  assumes "read_kept t now v" and "now \<le> stop" and "stop - t \<le> flow_window_ns"
  obtains e where "v = Some e" and "live now e" and "fs_sensitive_read_seen e"
  using assms within_window [of t _ now stop]
  by (auto simp: read_kept_def live_def flow_entry_expired_def not_less)

lemma ideal_keeps_read:
  assumes "read_kept t t0 (m root)" and "sorted (t0 # map op_time ops)" and "\<forall>x \<in> set ops. keeps_read x"
    and "\<forall>x \<in> set ops. op_time x \<le> stop" and "stop - t \<le> flow_window_ns"
  shows "read_kept t (last (t0 # map op_time ops)) (fold ideal_step ops m root)"
  using assms
proof (induction ops arbitrary: t0 m)
  case (Cons x ops)
  have le: "t0 \<le> op_time x" using Cons.prems(2) by simp
  have now: "read_kept t (op_time x) (m root)"
    using Cons.prems(1) le order.trans by (fastforce simp: read_kept_def)
  have "read_kept t (op_time x) (ideal_step x m root)"
  proof (cases x)
    case (Touch r u f)
    show ?thesis
    proof (cases "r = root")
      case True
      obtain e where e: "m root = Some e" "live u e" "fs_sensitive_read_seen e"
        using read_kept_live [OF now _ Cons.prems(5)] Cons.prems(4) Touch by auto
      have "t \<le> u" using now e Touch order.trans by (auto simp: read_kept_def)
      then show ?thesis
        using Cons.prems(3) Touch True e live_active [OF e(2)]
        by (auto simp: read_kept_def keeps_read_def touched_def keeps_key_def)
    next
      case False
      then show ?thesis using now Touch by simp
    qed
  qed (use now in simp)
  then show ?case using Cons.IH [of "op_time x" "ideal_step x m"] Cons.prems by simp
qed simp

text \<open>The operations of a run come in the order of its deliveries.\<close>

definition delivery_time :: "delivery \<Rightarrow> u64" where
  "delivery_time d = e_timestamp_ns (fst (snd d))"

definition delivery_root :: "delivery \<Rightarrow> u32" where
  "delivery_root d = (case d of (os, e, data_sz) \<Rightarrow> flow_root_pid e (enrich_process os (e_pid e) (e_uid e)))"

lemma delivery_op_fields:
  "x \<in> set (delivery_ops r d) \<Longrightarrow> op_time x = delivery_time d \<and> op_root x = delivery_root d"
  by (cases d) (auto simp: delivery_time_def delivery_root_def Let_def split: if_splits)

lemma run_ops_sorted: "sorted (map delivery_time ds) \<Longrightarrow> sorted (map op_time (run_ops r ds))"
proof (induction ds)
  case (Cons d ds)
  have same: "map op_time (delivery_ops r d) = replicate (length (delivery_ops r d)) (delivery_time d)"
    using delivery_op_fields by (simp add: map_replicate_const [symmetric] cong: map_cong)
  have later: "delivery_time d \<le> op_time x" if "x \<in> set (run_ops r ds)" for x
    using that Cons.prems delivery_op_fields by (fastforce simp: run_ops_def)
  show ?case using Cons later by (auto simp: run_ops_def same sorted_append)
qed (simp add: run_ops_def)

lemma run_ops_facts:
  assumes "x \<in> set (run_ops r ds)"
  shows "\<exists>d \<in> set ds. op_time x = delivery_time d \<and> op_root x = delivery_root d"
    and "keeps_read x" and "op_ok x"
  using assms delivery_op_fields delivery_keeps_read by (fastforce simp: run_ops_def)+

text \<open>What the memory shows for a connection, right after the connection itself was noted.\<close>

lemma memory_at_transfer:
  fixes r :: edr_rules
  assumes "sorted (map delivery_time (ds @ [d]))"
    and "card (delivery_root ` set (ds @ [d])) \<le> FLOW_STATE_ENTRIES" and "keeps_key f"
  defines "st \<equiv> flow_touch (delivery_root d) (delivery_time d) f (run_flow r ds)"
    and "m \<equiv> fold ideal_step (run_ops r ds) Map.empty"
  shows "flow_wf st" and "flow_view (delivery_time d) st root =
    live_only (delivery_time d) (ideal_step (Touch (delivery_root d) (delivery_time d) f) m root)"
proof -
  let ?x = "Touch (delivery_root d) (delivery_time d) f"
  have start: "flow_memory.agrees 0 init_flow_store Map.empty"
    by (simp add: flow_memory.agrees_def init_flow_facts)
  have le: "\<forall>d' \<in> set ds. delivery_time d' \<le> delivery_time d" using assms(1) by (simp add: sorted_append)
  have "op_time x \<le> delivery_time d" if "x \<in> set (run_ops r ds)" for x
    using run_ops_facts(1) [OF that] le by force
  moreover have "sorted (map op_time (run_ops r ds))"
    using assms(1) run_ops_sorted by (simp add: sorted_append)
  ultimately have "sorted (0 # map op_time (run_ops r ds @ [?x]))" by (simp add: sorted_append)
  moreover have "\<forall>x \<in> set (run_ops r ds @ [?x]). op_ok x"
    using run_ops_facts(3) assms(3) by auto
  moreover have "card (flow_held init_flow_store \<union> op_root ` set (run_ops r ds @ [?x])) \<le> FLOW_STATE_ENTRIES"
  proof -
    have "op_root x \<in> delivery_root ` set (ds @ [d])" if "x \<in> set (run_ops r ds)" for x
      using run_ops_facts(1) [OF that] by force
    then have "op_root ` set (run_ops r ds @ [?x]) \<subseteq> delivery_root ` set (ds @ [d])" by auto
    then have "card (op_root ` set (run_ops r ds @ [?x])) \<le> card (delivery_root ` set (ds @ [d]))"
      by (intro card_mono) simp
    then show ?thesis using assms(2) by (simp add: init_flow_facts)
  qed
  ultimately have "flow_memory.agrees (last (0 # map op_time (run_ops r ds @ [?x])))
      (fold flow_step (run_ops r ds @ [?x]) init_flow_store)
      (fold ideal_step (run_ops r ds @ [?x]) Map.empty)"
    using flow_memory.run_agrees [OF start] by (simp only: flow_step_memory)
  then have "flow_memory.agrees (delivery_time d) st (ideal_step ?x m)"
    by (simp add: st_def m_def run_flow_def)
  then show "flow_wf st" "flow_view (delivery_time d) st root =
      live_only (delivery_time d) (ideal_step ?x m root)"
    by (simp_all add: flow_memory.agrees_def)
qed

lemma sensitive_first:
  assumes "flow_wf st" and "public_transfer e"
    and v: "flow_view (e_timestamp_ns e) st (flow_root_pid e proc) = Some en" "fs_sensitive_read_seen en"
    and "\<not> rule_id_disabled r FLOW_RULE_SENSITIVE_READ_THEN_PUBLIC_NET"
  obtains f where "fst (evaluate_event r e proc st) = f"
    and "f_rule_id f = Rid_Lit FLOW_RULE_SENSITIVE_READ_THEN_PUBLIC_NET"
    and "f_severity f = effective_rule_severity r FLOW_RULE_SENSITIVE_READ_THEN_PUBLIC_NET
      (default_flow_rule_severity r FLOW_RULE_SENSITIVE_READ_THEN_PUBLIC_NET)"
    and "f_flow_root_pid f = flow_root_pid e proc"
proof -
  obtain st' where l: "flow_state_lookup (flow_root_pid e proc) (e_timestamp_ns e) st = (Some en, st')"
    using flow_lookup_snd(4) [OF assms(1), of "flow_root_pid e proc" "e_timestamp_ns e"] v(1)
    by (cases "flow_state_lookup (flow_root_pid e proc) (e_timestamp_ns e) st") auto
  let ?c = "(process_tree_has_shell_context e proc \<or> fs_shell_seen en) \<or> \<not> pc_has_tty proc"
  obtain f where f: "sensitive_flow r ?c (flow_root_pid e proc) = Some f"
    using assms(5) flow_rules_None(1) by fastforce
  have "fst (evaluate_connect_flow r e proc st) = Some f"
    using assms(2) f v(2) by (simp add: evaluate_connect_flow_def public_transfer_def Let_def l)
  then have "fst (evaluate_event r e proc st) = f"
    using connect_flow_result [OF assms(1)] public_transfer_local [OF assms(2)] by simp
  then show thesis using that flow_finding_Some [OF f [unfolded sensitive_flow_def]] by simp
qed

lemma read_noted:
  "read_kept t t (ideal_step (Touch root t (note_sensitive_read e)) m root)"
  by (auto simp: read_kept_def touched_def note_sensitive_read_def fresh_entry_def live_only_def
      dest: live_active split: option.split)

lemma delivery_pair [simp]:
  "delivery_time (os, e, sz) = e_timestamp_ns e"
  "delivery_root (os, e, sz) = flow_root_pid e (enrich_process os (e_pid e) (e_uid e))"
  by (simp_all add: delivery_time_def delivery_root_def)

lemma read_survives:
  assumes "sorted (map delivery_time (before @ (os, e, sz) # between @ [d]))"
    and "\<not> sz < sizeof_edr_event" and "e_type e = EDR_EVENT_OPENAT" and "feeds_memory r e"
    and "delivery_root (os, e, sz) = delivery_root d"
    and "delivery_time d - e_timestamp_ns e \<le> flow_window_ns"
    and f: "keeps_read (Touch (delivery_root d) (delivery_time d) f)"
  shows "read_kept (e_timestamp_ns e) (delivery_time d)
    (ideal_step (Touch (delivery_root d) (delivery_time d) f)
       (fold ideal_step (run_ops r (before @ (os, e, sz) # between)) Map.empty) (delivery_root d))"
proof -
  let ?x = "Touch (delivery_root d) (delivery_time d) f" and ?t = "e_timestamp_ns e"
  let ?m = "fold ideal_step (run_ops r before) Map.empty"
  let ?n = "Touch (delivery_root d) ?t (note_sensitive_read e)"
  let ?ops = "run_ops r between @ [?x]"
  have ops: "delivery_ops r (os, e, sz) = [?n]" using assms(2-5) by simp
  have le: "?t \<le> delivery_time d" "\<forall>d' \<in> set between. ?t \<le> delivery_time d' \<and> delivery_time d' \<le> delivery_time d"
    using assms(1) by (simp_all add: sorted_append)
  have times: "?t \<le> op_time x \<and> op_time x \<le> delivery_time d" if x: "x \<in> set ?ops" for x
  proof (cases "x \<in> set (run_ops r between)")
    case True
    then show ?thesis using run_ops_facts(1) [OF True] le(2) by force
  qed (use x le(1) in simp)
  have "sorted (map op_time (run_ops r between))"
    using run_ops_sorted assms(1) by (simp add: sorted_append)
  then have s: "sorted (?t # map op_time ?ops)" using times le(1) by (auto simp: sorted_append)
  have keep: "\<forall>x \<in> set ?ops. keeps_read x" using run_ops_facts(2) f by auto
  have "read_kept ?t (last (?t # map op_time ?ops)) (fold ideal_step ?ops (ideal_step ?n ?m) (delivery_root d))"
    by (rule ideal_keeps_read [OF read_noted s keep _ assms(6)]) (use times in blast)
  then show ?thesis using ops by (simp add: run_ops_def del: delivery_ops.simps)
qed

section \<open>Reporting everything\<close>

lemma all_events_run:
  assumes "op_all_events (en_opts en)"
  shows "ag_log (handle_events en ds ag) = ag_log ag @ map (\<lambda>(e, f). (e, f, 0)) (verdicts en ds (ag_flow ag)) \<and>
    ag_dedup (handle_events en ds ag) = ag_dedup ag"
  using assms
proof (induction en ds ag rule: handle_events.induct)
  case (2 en os e sz ds ag)
  show ?case
  proof (cases "sz < sizeof_edr_event")
    case True
    then show ?thesis using 2 by (simp add: assess_finding_small)
  next
    case False
    obtain f enr proc fl where a: "assess en os e (ag_flow ag) = (f, enr, proc, fl)"
      by (cases "assess en os e (ag_flow ag)")
    have "reportable en f" using "2.prems" by (simp add: reportable_def)
    then have h: "ag_log (handle_event en os e sz ag) = ag_log ag @ [(e, f, 0)]"
      "ag_dedup (handle_event en os e sz ag) = ag_dedup ag" "ag_flow (handle_event en os e sz ag) = fl"
      using "2.prems" by (simp_all add: handle_event_step [OF False a] ledger_simps)
    then show ?thesis using "2.IH" "2.prems" False a by simp
  qed
qed simp

lemma flush_unused:
  assumes "ag_dedup ag = replicate DEDUP_ENTRIES zero_dedup_entry"
  shows "ag_log (flush_dedup_cache en os ag) = ag_log ag"
proof -
  have zero_slot: "(replicate n z)[i := z] = replicate n z" for n i and z :: dedup_entry
    by (cases "i < n") (simp_all add: list_update_same_conv list_update_beyond)
  have step: "emit_dedup_entry en os i a = clear_dedup_entry i a"
    if "ag_dedup a = replicate DEDUP_ENTRIES zero_dedup_entry" "i < DEDUP_ENTRIES" for i a
    using that by (simp add: emit_dedup_entry_def Let_def)
  have "ag_log (fold (emit_dedup_entry en os) is a) = ag_log a"
    if "ag_dedup a = replicate DEDUP_ENTRIES zero_dedup_entry" "\<forall>i \<in> set is. i < DEDUP_ENTRIES" for "is" a
    using that by (induction "is" arbitrary: a) (simp_all add: step clear_dedup_entry_def zero_slot)
  then show ?thesis using assms by (simp add: flush_dedup_cache_def)
qed

section \<open>Properties\<close>

text \<open>
  C11.  When a finding is held back: exactly when the cache has an active entry of the same identity whose
  last occurrence lies less than the configured window before the event, in 64-bit arithmetic.
\<close>

theorem suppression_verdict:
  assumes "dedup_wf ag" and "wf_event e"
  shows "fst (suppress_duplicate en os e f ag) \<longleftrightarrow>
    (\<exists>d \<in> remembered e f ag. e_timestamp_ns e - de_last_seen_ns d < ru_dedup_window_ns (en_rules en))"
  by (rule suppress_outcome [OF assms, where f = f and en = en and os = os]) simp_all

text \<open>The entry made for the request for writable and executable memory at time 0, five seconds ago.\<close>

definition rwx_seen :: agent where
  "rwx_seen = snd (suppress_duplicate default_env sample_os rwx_event rwx_finding init_agent)"

lemma rwx_seen_facts:
  "dedup_wf rwx_seen" "remembered rwx_event rwx_finding rwx_seen = {fill_entry rwx_event rwx_finding}"
  "wf_event rwx_event" "ru_dedup_window_ns (en_rules default_env) = 5000000000"
proof -
  show e: "wf_event rwx_event"
    by (simp add: wf_event_def rwx_event_def zero_event_def is_cstr_def)
  show "ru_dedup_window_ns (en_rules default_env) = 5000000000"
    by (simp add: default_env_def init_default_fields DEFAULT_DEDUP_WINDOW_SECONDS_def NS_PER_SECOND_def)
  obtain b where s: "suppress_duplicate default_env sample_os rwx_event rwx_finding init_agent = (b, rwx_seen)"
    by (cases "suppress_duplicate default_env sample_os rwx_event rwx_finding init_agent")
      (simp add: rwx_seen_def)
  show wf: "dedup_wf rwx_seen" by (rule suppress_ledger(1) [OF s init_agent_facts(1) e])
  have n: "first_index (\<lambda>d. same_dedup_key d rwx_event rwx_finding) (ag_dedup init_agent) = None"
    by (simp add: first_index_None init_agent_def same_dedup_key_def)
  have "ag_dedup rwx_seen = (replicate DEDUP_ENTRIES zero_dedup_entry)[0 := fill_entry rwx_event rwx_finding]"
    using n by (simp add: rwx_seen_def suppress_duplicate_def Let_def) (simp add: init_agent_def DEDUP_ENTRIES_def)
  then have member: "fill_entry rwx_event rwx_finding \<in> remembered rwx_event rwx_finding rwx_seen"
    using fill_entry_ok [OF e, where f = rwx_finding] by (simp add: remembered_def DEDUP_ENTRIES_def set_update_memI)
  show "remembered rwx_event rwx_finding rwx_seen = {fill_entry rwx_event rwx_finding}"
    by (rule suppress_outcome [OF wf e, where f = rwx_finding]) (use member in auto)
qed

definition rwx_at :: "u64 \<Rightarrow> edr_event" where
  "rwx_at t = rwx_event\<lparr>e_timestamp_ns := t\<rparr>"

lemma rwx_at_facts:
  "wf_event (rwx_at t)" "event_key (rwx_at t) f = event_key rwx_event f" "e_timestamp_ns (rwx_at t) = t"
  "remembered (rwx_at t) f ag = remembered rwx_event f ag"
  "de_last_seen_ns (fill_entry rwx_event f) = 0"
  using rwx_seen_facts(3)
  by (simp_all add: rwx_at_def wf_event_def event_key_def remembered_def fill_entry_def)
    (simp_all add: rwx_event_def zero_event_def)

theorem suppression_verdict_witness:
  "fst (suppress_duplicate default_env sample_os (rwx_at 4999999999) rwx_finding rwx_seen)"
  using suppression_verdict [OF rwx_seen_facts(1) rwx_at_facts(1), of default_env sample_os 4999999999 rwx_finding]
  by (simp add: rwx_at_facts rwx_seen_facts)

text \<open>
  C39.  After the window a repetition is forgotten: the expired entry is reported and cleared but the new
  occurrence is not entered, so that the next identical finding is let through as well, however soon it
  follows.
\<close>

theorem expired_repeat_forgotten:
  assumes "dedup_wf ag" and "wf_event e" and "d \<in> remembered e f ag"
    and "ru_dedup_window_ns (en_rules en) \<le> e_timestamp_ns e - de_last_seen_ns d"
    and "wf_event e2" and "event_key e2 f2 = event_key e f"
  shows "case suppress_duplicate en os e f ag of (b, ag') \<Rightarrow>
    \<not> b \<and> \<not> fst (suppress_duplicate en os2 e2 f2 ag')"
proof -
  obtain b ag' where s: "suppress_duplicate en os e f ag = (b, ag')" by (cases "suppress_duplicate en os e f ag")
  note x = expired_cleared [OF assms(1-4), of os]
  have "remembered e2 f2 ag' = {}" using x(2) assms(6) by (simp add: s remembered_def)
  moreover have "dedup_wf ag'" by (rule suppress_ledger(1) [OF s assms(1,2)])
  ultimately have "\<not> fst (suppress_duplicate en os2 e2 f2 ag')"
    using suppress_outcome [OF _ assms(5), of ag' f2 en os2] by fastforce
  then show ?thesis using x(1) s by simp
qed

theorem expired_repeat_forgotten_witness:
  "\<not> fst (suppress_duplicate default_env sample_os (rwx_at 5000000001) rwx_finding
     (snd (suppress_duplicate default_env sample_os (rwx_at 5000000000) rwx_finding rwx_seen)))"
  using expired_repeat_forgotten [OF rwx_seen_facts(1) rwx_at_facts(1), of _ 5000000000 rwx_finding default_env
      "rwx_at 5000000001" rwx_finding sample_os sample_os]
  by (simp add: rwx_at_facts rwx_seen_facts split: prod.splits)

text \<open>
  C18.  With all events on, every full record is reported once, at once and in order, informational ones
  too, with the finding made for it; nothing is cached.
\<close>

theorem all_events_log:
  assumes "op_all_events (en_opts en)"
  shows "ag_log (flush_dedup_cache en os (handle_events en ds init_agent)) =
    map (\<lambda>(e, f). (e, f, 0)) (verdicts en ds init_flow_store)"
proof -
  note r = all_events_run [OF assms, of ds init_agent]
  have "ag_dedup (handle_events en ds init_agent) = replicate DEDUP_ENTRIES zero_dedup_entry"
    using r by (simp add: init_agent_def)
  then show ?thesis using r by (simp add: flush_unused init_agent_facts) (simp add: init_agent_def)
qed

definition loud_env :: agent_env where
  "loud_env = default_env\<lparr>en_opts := (en_opts default_env)\<lparr>op_all_events := True\<rparr>\<rparr>"

theorem all_events_log_witness:
  "ag_log (flush_dedup_cache loud_env sample_os (handle_events loud_env rwx_twice init_agent)) =
     [(rwx_event, rwx_finding, 0), (rwx_event, rwx_finding, 0)]"
proof -
  have "assess loud_env os rwx_event fl = (rwx_finding, False, zero_context, fl)" for os fl
    by (simp add: assess_def evaluate_event_def loud_env_def default_env_def rwx_local Let_def)
      (simp add: rwx_event_def)
  then show ?thesis
    using all_events_log [of loud_env sample_os rwx_twice]
    by (simp add: rwx_twice_def sizeof_edr_event_value numeral_2_eq_2) (simp add: loud_env_def)
qed

text \<open>
  C4.  From a sensitive read to the transfer: in any run in time order on at most 256 process trees, if a
  process tree opens a sensitive file and within the flow window a transfer tool of the same tree
  connects to a public address, then the connection gets the finding of the sensitive-read flow rule,
  with its effective severity and the root of the tree, whatever happens before and in between.
\<close>

theorem sensitive_read_then_transfer:
  fixes before between :: "delivery list" and rd tr :: edr_event
  assumes "ds = before @ (os, rd, sz) # between @ [(os', tr, sz')]"
    and "sorted (map delivery_time ds)" and "card (delivery_root ` set ds) \<le> FLOW_STATE_ENTRIES"
    and "\<not> sz < sizeof_edr_event" and "\<not> sz' < sizeof_edr_event"
    and "e_type rd = EDR_EVENT_OPENAT" and "feeds_memory (en_rules en) rd" and "public_transfer tr"
    and "delivery_root (os, rd, sz) = delivery_root (os', tr, sz')"
    and "e_timestamp_ns tr - e_timestamp_ns rd \<le> flow_window_ns"
    and "\<not> rule_id_disabled (en_rules en) FLOW_RULE_SENSITIVE_READ_THEN_PUBLIC_NET"
  shows "case last (verdicts en ds init_flow_store) of (e, f) \<Rightarrow> e = tr \<and>
    f_rule_id f = Rid_Lit FLOW_RULE_SENSITIVE_READ_THEN_PUBLIC_NET \<and>
    f_severity f = effective_rule_severity (en_rules en) FLOW_RULE_SENSITIVE_READ_THEN_PUBLIC_NET
      (default_flow_rule_severity (en_rules en) FLOW_RULE_SENSITIVE_READ_THEN_PUBLIC_NET) \<and>
    f_flow_root_pid f = delivery_root (os', tr, sz')"
proof -
  let ?r = "en_rules en" and ?d = "(os', tr, sz')" and ?pre = "before @ (os, rd, sz) # between"
  let ?proc = "enrich_process os' (e_pid tr) (e_uid tr)" and ?t = "e_timestamp_ns tr"
  let ?st = "flow_touch (delivery_root ?d) (delivery_time ?d) (note_connect tr) (run_flow ?r ?pre)"
  have ds: "ds = ?pre @ [?d]" using assms(1) by simp
  have t: "e_type tr = EDR_EVENT_CONNECT" using assms(8) by (simp add: public_transfer_def)
  have keep: "keeps_read (Touch (delivery_root ?d) (delivery_time ?d) (note_connect tr))"
    by (simp add: keeps_read_def note_connect_def)
  note m = memory_at_transfer [of ?pre ?d "note_connect tr" ?r]
  have kept: "read_kept (e_timestamp_ns rd) ?t (ideal_step (Touch (delivery_root ?d) ?t (note_connect tr))
      (fold ideal_step (run_ops ?r ?pre) Map.empty) (delivery_root ?d))"
    using read_survives [of before os rd sz between ?d ?r] assms keep by simp
  obtain en' where en': "flow_view ?t ?st (delivery_root ?d) = Some en'" "fs_sensitive_read_seen en'"
    using read_kept_live [OF kept order_refl assms(10)] m(2) assms(2,3) by (auto simp: ds)
  have wf: "flow_wf ?st" using m(1) assms(2,3) by (simp add: ds)
  have st: "flow_state_observe_event tr ?proc (run_flow ?r ?pre) = ?st"
    using t by (simp add: flow_state_observe_event_def)
  obtain f where f: "fst (evaluate_event ?r tr ?proc ?st) = f"
    "f_rule_id f = Rid_Lit FLOW_RULE_SENSITIVE_READ_THEN_PUBLIC_NET"
    "f_severity f = effective_rule_severity ?r FLOW_RULE_SENSITIVE_READ_THEN_PUBLIC_NET
       (default_flow_rule_severity ?r FLOW_RULE_SENSITIVE_READ_THEN_PUBLIC_NET)"
    "f_flow_root_pid f = delivery_root ?d"
    using sensitive_first [OF wf assms(8) _ en'(2) assms(11), of ?proc] en'(1) by auto
  have "fst (assess en os' tr (run_flow ?r ?pre)) = f"
    using t f(1) st by (simp add: assess_def Let_def split: prod.split) fastforce
  then have "verdicts en ds init_flow_store = verdicts en ?pre init_flow_store @ [(tr, f)]"
    unfolding ds verdicts_append run_flow_def [symmetric]
    using assms(5) by (cases "assess en os' tr (run_flow ?r ?pre)") simp
  then show ?thesis using f by simp
qed

text \<open>
  A process without recorded parents reads the shadow file, asks for memory, and a hundred seconds later
  \<open>curl\<close> in it connects to 8.8.8.8.
\<close>

definition bare_os :: os_view where
  "bare_os = sample_os\<lparr>os_file := (\<lambda>_. None)\<rparr>"

definition shadow_event :: edr_event where
  "shadow_event = zero_event\<lparr>e_type := EDR_EVENT_OPENAT, e_pid := 42, e_target := ''/etc/shadow''\<rparr>"

definition late_curl :: edr_event where
  "late_curl = curl_event\<lparr>e_timestamp_ns := 100000000000\<rparr>"

lemma late_curl_facts:
  "public_transfer late_curl" "e_timestamp_ns late_curl = 100000000000" "e_pid late_curl = 42"
proof -
  have "classify_net_destination late_curl = classify_net_destination curl_event"
    by (simp add: classify_net_destination_def late_curl_def Let_def)
  then show "public_transfer late_curl"
    using curl_public by (simp add: late_curl_def public_transfer_def)
qed (simp_all add: late_curl_def curl_event_def)

lemma bare_root: "flow_root_pid e (enrich_process bare_os (e_pid e) (e_uid e)) = e_pid e"
proof -
  have p: "read_proc_ppid bare_os pid = 0" for pid
    by (simp add: read_proc_ppid_def bare_os_def)
  have "pc_ppid (enrich_user_presence os pid uid c) = pc_ppid c"
    "pc_gppid (enrich_user_presence os pid uid c) = pc_gppid c"
    "pc_ppid (read_proc_exe_metadata os pid c) = pc_ppid c"
    "pc_gppid (read_proc_exe_metadata os pid c) = pc_gppid c" for os pid uid c
    by (simp_all add: enrich_user_presence_def read_proc_exe_metadata_def Let_def split: option.split)
  then show ?thesis by (simp add: flow_root_pid_def enrich_process_def Let_def p)
qed

lemma shadow_feeds: "feeds_memory init_default_rules shadow_event"
proof -
  have w: "\<not> opens_for_write (e_flags shadow_event)"
    by (simp add: opens_for_write_def has_flag_def flag_defs shadow_event_def zero_event_def)
  have t: "e_target shadow_event = ''/etc/shadow''" "e_type shadow_event = EDR_EVENT_OPENAT"
    by (simp_all add: shadow_event_def)
  have "\<not> sublist v ''/etc/shadow''"
    if "v \<in> {''/etc/sudoers'', ''/etc/ssh/'', ''/root/.ssh/'', ''/.ssh/id_rsa'', ''/.ssh/id_ed25519'', ''/proc/kcore''}" for v
    using that by (auto simp: sublist_Cons_right)
  then have "enabled_hits init_default_rules (\<lambda>v. sublist v ''/etc/shadow'') (ru_sensitive_read init_default_rules) =
      [(''/etc/shadow'', EDR_SEV_WARN, ''file.sensitive_read'')]"
    by (simp add: enabled_hits_def init_default_tables default_rows_def default_read_paths_def init_default_controls)
  then have "read_hit init_default_rules (is_sensitive_read_file init_default_rules ''/etc/shadow'') =
      Some (EDR_SEV_WARN, ''file.sensitive_read'')"
    using init_default_rules_wf
    by (simp add: is_sensitive_read_file_def contains_rule_def scan_rules_rows rules_wf_def strstr_def
        verdict_of_def effective_rule_severity_map [OF init_default_rules_wf] init_default_controls)
  then obtain s x where h: "is_sensitive_read_file init_default_rules ''/etc/shadow'' = Some (s, x)"
    "rule_text init_default_rules x = ''file.sensitive_read''"
    by (auto simp: read_hit_def)
  have "evaluate_local init_default_rules shadow_event = Some (make_finding s x ''sensitive file access'')"
    using w h(1) by (simp add: evaluate_local_def t)
  then show ?thesis
    by (simp add: feeds_memory_def make_finding_def h(2) rule_id_matches_family_def)
qed

theorem sensitive_read_then_transfer_witness:
  "f_rule_id (snd (last (verdicts default_env
     [(bare_os, shadow_event, 344), (bare_os, rwx_event, 344), (bare_os, late_curl, 344)] init_flow_store))) =
     Rid_Lit FLOW_RULE_SENSITIVE_READ_THEN_PUBLIC_NET"
proof -
  let ?ds = "[(bare_os, shadow_event, 344), (bare_os, rwx_event, 344), (bare_os, late_curl, 344)] :: delivery list"
  have "card (delivery_root ` set ?ds) \<le> card (set ?ds)" by (rule card_image_le) simp
  also have "\<dots> \<le> length ?ds" by (rule card_length)
  also have "\<dots> \<le> FLOW_STATE_ENTRIES" by (simp add: FLOW_STATE_ENTRIES_def)
  finally have small: "card (delivery_root ` set ?ds) \<le> FLOW_STATE_ENTRIES" .
  have s: "e_timestamp_ns shadow_event = 0" "e_pid shadow_event = 42" "e_type shadow_event = EDR_EVENT_OPENAT"
    "e_timestamp_ns rwx_event = 0"
    by (simp_all add: shadow_event_def rwx_event_def zero_event_def)
  have root: "delivery_root (bare_os, e, n) = e_pid e" for e n by (simp add: bare_root)
  have rules: "en_rules default_env = init_default_rules" by (simp add: default_env_def)
  have "case last (verdicts default_env ?ds init_flow_store) of (e, f) \<Rightarrow> e = late_curl \<and>
      f_rule_id f = Rid_Lit FLOW_RULE_SENSITIVE_READ_THEN_PUBLIC_NET \<and>
      f_severity f = effective_rule_severity (en_rules default_env) FLOW_RULE_SENSITIVE_READ_THEN_PUBLIC_NET
        (default_flow_rule_severity (en_rules default_env) FLOW_RULE_SENSITIVE_READ_THEN_PUBLIC_NET) \<and>
      f_flow_root_pid f = delivery_root (bare_os, late_curl, 344)"
  proof (rule sensitive_read_then_transfer [where before = "[]" and between = "[(bare_os, rwx_event, 344)]"
        and rd = shadow_event])
    show "sorted (map delivery_time ?ds)" by (simp add: s late_curl_facts)
    show "feeds_memory (en_rules default_env) shadow_event" unfolding rules by (rule shadow_feeds)
    show "delivery_root (bare_os, shadow_event, 344) = delivery_root (bare_os, late_curl, 344)"
      unfolding root s late_curl_facts ..
    show "e_timestamp_ns late_curl - e_timestamp_ns shadow_event \<le> flow_window_ns"
      by (simp add: s late_curl_facts flow_window_ns_def FLOW_WINDOW_SECONDS_def NS_PER_SECOND_def)
    show "\<not> (344 :: nat) < sizeof_edr_event" "\<not> (344 :: nat) < sizeof_edr_event"
      by (simp_all add: sizeof_edr_event_value)
  qed (simp_all only: small late_curl_facts s rules init_default_controls append.simps simp_thms)
  then show ?thesis by (simp only: split: prod.splits) auto
qed

end
