(* ===== verification/Config.thy ===== *)
theory Config
  imports Policy ProcContext
begin

text \<open>
  Reading the configuration file (\<open>dev/host/asic_main.c\<close>): \<open>split_rule_value\<close>,
  \<open>parse_rule_severity_control\<close>, \<open>select_profile_from_file\<close>, \<open>load_rules_file\<close> and
  \<open>validate_rule_id_controls\<close>.  The loops go over the chunks \<open>fgets\<close> returns for a buffer of 512
  bytes; what the code writes to \<open>stderr\<close> is kept, message by message, beside the flag \<open>valid\<close>.

  Parameters stand for what the C library says: the text of \<open>strerror(errno)\<close> and whether \<open>fseek\<close>
  succeeds.
\<close>

definition CONFIG_LINE :: nat where [simp]: "CONFIG_LINE = 512"

section \<open>Values with severity and rule id\<close>

text \<open>
  What \<open>trim\<close> leaves in the buffer it was given: leading blanks stay, trailing ones are cut.
\<close>

definition trimmed_buffer :: "string \<Rightarrow> string" where
  "trimmed_buffer s = takeWhile is_blank s @ trim s"

text \<open>The last two lines of \<open>split_rule_value\<close>.\<close>

definition finish_value ::
  "string \<Rightarrow> edr_severity \<Rightarrow> string \<Rightarrow> (string \<times> edr_severity \<times> string) option \<times> string" where
  "finish_value raw severity rule_id =
     (let rule_value = trim raw
      in (if rule_value = [] then None else Some (rule_value, severity, rule_id), trimmed_buffer raw))"

text \<open>\<open>split_rule_value\<close>: the parts, if it succeeds, and the buffer \<open>raw_value\<close> after the call.\<close>

definition split_rule_value ::
  "string \<Rightarrow> edr_severity \<Rightarrow> string \<Rightarrow> (string \<times> edr_severity \<times> string) option \<times> string" where
  "split_rule_value raw_value default_severity default_rule_id =
     (case split_last (CHR '','') raw_value of
        None \<Rightarrow> finish_value raw_value default_severity default_rule_id
      | Some (raw_value, tail) \<Rightarrow>
          (let suffix = trim tail in
           case parse_severity suffix of
             Some severity \<Rightarrow> finish_value raw_value severity default_rule_id
           | None \<Rightarrow>
               if \<not> valid_rule_id suffix then (None, raw_value)
               else (case split_last (CHR '','') raw_value of
                       None \<Rightarrow> (None, raw_value)
                     | Some (raw_value, tail) \<Rightarrow>
                         (case parse_severity (trim tail) of
                            None \<Rightarrow> (None, raw_value)
                          | Some severity \<Rightarrow> finish_value raw_value severity suffix))))"

definition parse_rule_severity_control :: "string \<Rightarrow> (string \<times> edr_severity) option" where
  "parse_rule_severity_control raw_value =
     (case split_first (CHR '','') raw_value of
        None \<Rightarrow> None
      | Some (head, tail) \<Rightarrow>
          (let rule_id = trim head in
           if \<not> valid_rule_id rule_id then None
           else map_option (\<lambda>severity. (rule_id, severity)) (parse_severity (trim tail))))"

section \<open>Lines\<close>

datatype config_text = Ignored | Malformed | Setting string string

text \<open>One chunk of the file: blank or comment, without an equals sign, or a key and its value.\<close>

definition read_config_line :: "string \<Rightarrow> config_text" where
  "read_config_line line =
     (let entry = trim (cstr line) in
      if entry = [] \<or> hd entry = CHR ''#'' then Ignored
      else (case split_first (CHR ''='') entry of
              None \<Rightarrow> Malformed
            | Some (key, value) \<Rightarrow> Setting (trim key) (trim value)))"

record loader =
  ld_rules :: edr_rules
  ld_valid :: bool
  ld_stderr :: "string list"

text \<open>A message on \<open>stderr\<close> together with \<open>valid = false\<close>.\<close>

definition complain :: "string \<Rightarrow> loader \<Rightarrow> loader" where
  "complain msg l = l\<lparr>ld_valid := False, ld_stderr := ld_stderr l @ [msg]\<rparr>"

definition set_rules :: "edr_rules \<Rightarrow> loader \<Rightarrow> loader" where
  "set_rules r l = l\<lparr>ld_rules := r\<rparr>"

definition at_line :: "string \<Rightarrow> u32 \<Rightarrow> string" where
  "at_line path line_no = '' on line '' @ fmt_u (unat line_no) @ '' in '' @ path @ [newline]"

definition quoted :: "string \<Rightarrow> string" where
  "quoted s = '' '' @ [CHR 0x27] @ s @ [CHR 0x27]"

text \<open>A call that fills a table: the message if it fails.\<close>

definition store_or :: "string \<Rightarrow> edr_rules option \<Rightarrow> loader \<Rightarrow> loader" where
  "store_or msg r l = (case r of None \<Rightarrow> complain msg l | Some r \<Rightarrow> set_rules r l)"

section \<open>Settings\<close>

text \<open>
  The four branches for tables of texts; \<open>add\<close> is \<open>add_rule_value\<close> or \<open>add_path_rule\<close> on the table
  of the branch.
\<close>

definition text_rule_setting ::
  "string \<Rightarrow> edr_severity \<Rightarrow> string \<Rightarrow> (string \<Rightarrow> edr_severity \<Rightarrow> string \<Rightarrow> edr_rules option) \<Rightarrow>
   string \<Rightarrow> string \<Rightarrow> loader \<Rightarrow> loader" where
  "text_rule_setting key default_severity default_rule_id add value here l =
     (case fst (split_rule_value value default_severity default_rule_id) of
        None \<Rightarrow> complain (''invalid '' @ key @ here) l
      | Some (rule_value, severity, rule_id) \<Rightarrow>
          store_or (''too many '' @ key @ '' rules'' @ here) (add rule_value severity rule_id) l)"

definition exec_exact_setting :: "string \<Rightarrow> string \<Rightarrow> loader \<Rightarrow> loader" where
  "exec_exact_setting value here l =
     text_rule_setting ''suspicious_exec_exact'' EDR_SEV_WARN ''exec.suspicious_exact''
       (\<lambda>v s i. map_option (\<lambda>t. (ld_rules l)\<lparr>ru_suspicious_exec_exact := t\<rparr>)
          (add_rule_value MAX_RULES v s i (ru_suspicious_exec_exact (ld_rules l)))) value here l"

definition exec_prefix_setting :: "string \<Rightarrow> string \<Rightarrow> loader \<Rightarrow> loader" where
  "exec_prefix_setting value here l =
     text_rule_setting ''suspicious_exec_prefix'' EDR_SEV_WARN ''exec.suspicious_prefix''
       (\<lambda>v s i. map_option (\<lambda>t. (ld_rules l)\<lparr>ru_suspicious_exec_prefix := t\<rparr>)
          (add_rule_value MAX_RULES v s i (ru_suspicious_exec_prefix (ld_rules l)))) value here l"

definition sensitive_read_setting :: "string \<Rightarrow> string \<Rightarrow> loader \<Rightarrow> loader" where
  "sensitive_read_setting value here l =
     text_rule_setting ''sensitive_read'' EDR_SEV_WARN ''file.sensitive_read''
       (\<lambda>v s i. map_option (\<lambda>t. (ld_rules l)\<lparr>ru_sensitive_read := t\<rparr>)
          (add_path_rule MAX_RULES v s i (ru_sensitive_read (ld_rules l)))) value here l"

definition sensitive_write_setting :: "string \<Rightarrow> string \<Rightarrow> loader \<Rightarrow> loader" where
  "sensitive_write_setting value here l =
     text_rule_setting ''sensitive_write'' EDR_SEV_CRITICAL ''file.sensitive_write''
       (\<lambda>v s i. map_option (\<lambda>t. (ld_rules l)\<lparr>ru_sensitive_write := t\<rparr>)
          (add_path_rule MAX_RULES v s i (ru_sensitive_write (ld_rules l)))) value here l"

text \<open>The message of this branch shows the value as \<open>split_rule_value\<close> left it.\<close>

definition port_setting :: "string \<Rightarrow> string \<Rightarrow> loader \<Rightarrow> loader" where
  "port_setting value here l =
     (case split_rule_value value EDR_SEV_WARN ''net.suspicious_port'' of (parts, value) \<Rightarrow>
        store_or (''invalid suspicious_port'' @ quoted value @ here)
          (case parts of
             None \<Rightarrow> None
           | Some (rule_value, severity, rule_id) \<Rightarrow>
               map_option (\<lambda>t. (ld_rules l)\<lparr>ru_suspicious_ports := t\<rparr>)
                 (add_port_rule MAX_RULES rule_value severity rule_id (ru_suspicious_ports (ld_rules l)))) l)"

definition disable_port_setting :: "string \<Rightarrow> string \<Rightarrow> loader \<Rightarrow> loader" where
  "disable_port_setting value here l =
     (case remove_port_rule value (ru_suspicious_ports (ld_rules l)) of (removed, t) \<Rightarrow>
        (let l = set_rules ((ld_rules l)\<lparr>ru_suspicious_ports := t\<rparr>) l
         in if removed then l
            else complain (''invalid disable_suspicious_port'' @ quoted value @ here) l))"
text \<open>The branches that remove cannot fail; the two for rule controls check the id first.\<close>

definition disable_rule_id_setting :: "string \<Rightarrow> string \<Rightarrow> loader \<Rightarrow> loader" where
  "disable_rule_id_setting value here l =
     store_or (''invalid disable_rule_id'' @ quoted value @ here)
       (if \<not> valid_rule_id value then None else add_disabled_rule_id value (ld_rules l)) l"

definition rule_severity_setting :: "string \<Rightarrow> string \<Rightarrow> loader \<Rightarrow> loader" where
  "rule_severity_setting value here l =
     store_or (''invalid rule_severity'' @ here)
       (case parse_rule_severity_control value of
          None \<Rightarrow> None
        | Some (rule_id, severity) \<Rightarrow> add_rule_severity_override rule_id severity (ld_rules l)) l"

definition dedup_window_setting :: "string \<Rightarrow> string \<Rightarrow> loader \<Rightarrow> loader" where
  "dedup_window_setting value here l =
     store_or (''invalid dedup_window_seconds'' @ quoted value @ here)
       (case parse_u64 value of
          None \<Rightarrow> None
        | Some seconds \<Rightarrow>
            if - 1 div NS_PER_SECOND < seconds then None
            else Some ((ld_rules l)\<lparr>ru_dedup_window_ns := seconds * NS_PER_SECOND\<rparr>)) l"

definition idle_threshold_setting :: "string \<Rightarrow> string \<Rightarrow> loader \<Rightarrow> loader" where
  "idle_threshold_setting value here l =
     store_or (''invalid user_idle_threshold_seconds'' @ quoted value @ here)
       (case parse_u64 value of
          None \<Rightarrow> None
        | Some seconds \<Rightarrow>
            if 0xFFFFFFFF < seconds then None
            else Some ((ld_rules l)\<lparr>ru_user_idle_threshold_seconds := ucast seconds\<rparr>)) l"

definition min_severity_setting :: "string \<Rightarrow> string \<Rightarrow> loader \<Rightarrow> loader" where
  "min_severity_setting value here l =
     store_or (''invalid min_severity'' @ quoted value @ here)
       (map_option (\<lambda>s. (ld_rules l)\<lparr>ru_min_severity := s\<rparr>) (parse_severity value)) l"

definition jit_allow_setting :: "string \<Rightarrow> string \<Rightarrow> loader \<Rightarrow> loader" where
  "jit_allow_setting value here l =
     store_or (''too many jit_allow_comm rules'' @ here)
       (map_option (\<lambda>t. (ld_rules l)\<lparr>ru_jit_allow_comm := t\<rparr>)
          (add_comm_rule MAX_RULES value (ru_jit_allow_comm (ld_rules l)))) l"

definition flow_allow_setting :: "string \<Rightarrow> string \<Rightarrow> loader \<Rightarrow> loader" where
  "flow_allow_setting value here l =
     store_or (''too many flow_allow_transfer rules'' @ here)
       (map_option (\<lambda>t. (ld_rules l)\<lparr>ru_flow_allow_transfer := t\<rparr>)
          (add_target_rule MAX_RULES value (ru_flow_allow_transfer (ld_rules l)))) l"

text \<open>
  The \<open>disable_\<close> branches of the tables of texts: the policy after them.  Two of them are
  \<open>drop_exec_exact\<close> and \<open>drop_jit_comm\<close>, which the profiles also use.
\<close>

definition disable_exec_prefix :: "string \<Rightarrow> edr_rules \<Rightarrow> edr_rules" where
  "disable_exec_prefix value r =
     r\<lparr>ru_suspicious_exec_prefix := snd (remove_rule_value value (ru_suspicious_exec_prefix r))\<rparr>"

definition disable_sensitive_read :: "string \<Rightarrow> edr_rules \<Rightarrow> edr_rules" where
  "disable_sensitive_read value r =
     r\<lparr>ru_sensitive_read := snd (remove_path_rule value (ru_sensitive_read r))\<rparr>"

definition disable_sensitive_write :: "string \<Rightarrow> edr_rules \<Rightarrow> edr_rules" where
  "disable_sensitive_write value r =
     r\<lparr>ru_sensitive_write := snd (remove_path_rule value (ru_sensitive_write r))\<rparr>"

definition disable_flow_allow :: "string \<Rightarrow> edr_rules \<Rightarrow> edr_rules" where
  "disable_flow_allow value r =
     r\<lparr>ru_flow_allow_transfer := snd (remove_target_rule value (ru_flow_allow_transfer r))\<rparr>"

definition config_entry :: "string \<Rightarrow> string \<Rightarrow> string \<Rightarrow> loader \<Rightarrow> loader" where
  "config_entry key value here l =
     (if key = ''suspicious_exec_exact'' then exec_exact_setting value here l
      else if key = ''disable_suspicious_exec_exact'' then set_rules (drop_exec_exact value (ld_rules l)) l
      else if key = ''suspicious_exec_prefix'' then exec_prefix_setting value here l
      else if key = ''disable_suspicious_exec_prefix'' then set_rules (disable_exec_prefix value (ld_rules l)) l
      else if key = ''sensitive_read'' then sensitive_read_setting value here l
      else if key = ''disable_sensitive_read'' then set_rules (disable_sensitive_read value (ld_rules l)) l
      else if key = ''sensitive_write'' then sensitive_write_setting value here l
      else if key = ''disable_sensitive_write'' then set_rules (disable_sensitive_write value (ld_rules l)) l
      else if key = ''jit_allow_comm'' then jit_allow_setting value here l
      else if key = ''disable_jit_allow_comm'' then set_rules (drop_jit_comm value (ld_rules l)) l
      else if key = ''suspicious_port'' then port_setting value here l
      else if key = ''disable_suspicious_port'' then disable_port_setting value here l
      else if key = ''flow_allow_transfer'' then flow_allow_setting value here l
      else if key = ''disable_flow_allow_transfer'' then set_rules (disable_flow_allow value (ld_rules l)) l
      else if key = ''disable_rule_id'' then disable_rule_id_setting value here l
      else if key = ''rule_severity'' then rule_severity_setting value here l
      else if key = ''dedup_window_seconds'' then dedup_window_setting value here l
      else if key = ''user_idle_threshold_seconds'' then idle_threshold_setting value here l
      else if key = ''min_severity'' then min_severity_setting value here l
      else complain (''unknown config key'' @ quoted key @ here) l)"

section \<open>The loops\<close>

text \<open>One turn of the loop of \<open>load_rules_file\<close>.\<close>

definition config_line :: "string \<Rightarrow> u32 \<Rightarrow> string \<Rightarrow> loader \<Rightarrow> loader" where
  "config_line path line_no line l =
     (case read_config_line line of
        Ignored \<Rightarrow> l
      | Malformed \<Rightarrow> complain (''invalid config line '' @ fmt_u (unat line_no) @ '' in '' @ path @ [newline]) l
      | Setting key value \<Rightarrow>
          if key = ''profile'' then l
          else if value = [] then l
          else config_entry key value (at_line path line_no) l)"

fun load_loop :: "string \<Rightarrow> u32 \<Rightarrow> string list \<Rightarrow> loader \<Rightarrow> loader" where
  "load_loop path line_no [] l = l"
| "load_loop path line_no (line # lines) l =
     load_loop path (line_no + 1) lines (config_line path (line_no + 1) line l)"

definition profile_line :: "string \<Rightarrow> u32 \<Rightarrow> string \<Rightarrow> edr_profile \<times> loader \<Rightarrow> edr_profile \<times> loader" where
  "profile_line path line_no line s =
     (case s of (selected, l) \<Rightarrow>
       (case read_config_line line of
          Setting key value \<Rightarrow>
            if key \<noteq> ''profile'' then (selected, l)
            else (case parse_profile value of
                    Some p \<Rightarrow> (p, l)
                  | None \<Rightarrow> (selected, complain (''invalid profile'' @ quoted value @ '' on line '' @
                      fmt_u (unat line_no) @ '' in '' @ path @
                      ''; supported profiles: baseline, server, developer-workstation, high-signal'' @
                      [newline]) l))
        | _ \<Rightarrow> (selected, l)))"

fun profile_loop :: "string \<Rightarrow> u32 \<Rightarrow> string list \<Rightarrow> edr_profile \<times> loader \<Rightarrow> edr_profile \<times> loader" where
  "profile_loop path line_no [] s = s"
| "profile_loop path line_no (line # lines) s =
     profile_loop path (line_no + 1) lines (profile_line path (line_no + 1) line s)"

text \<open>
  The functions from here on take the global policy inside a loader, and return their result beside
  it; each starts with its own \<open>valid = true\<close>.
\<close>

definition select_profile_from_file ::
  "string \<Rightarrow> bool \<Rightarrow> string \<Rightarrow> string \<Rightarrow> loader \<Rightarrow> bool \<times> loader" where
  "select_profile_from_file errno_text rewinds path content l =
     (let (selected, l) = profile_loop path 0 (fgets_lines CONFIG_LINE content)
                            (EDR_PROFILE_BASELINE, l\<lparr>ld_valid := True\<rparr>)
      in if \<not> rewinds
         then (False, complain (''failed to rewind config '' @ path @ '': '' @ errno_text @ [newline]) l)
         else if \<not> ld_valid l then (False, l)
         else (case apply_profile selected (ld_rules l) of (ok, r) \<Rightarrow> (ok, set_rules r l)))"

text \<open>One message per unknown id, in the order of the two tables.\<close>

definition check_control :: "string \<Rightarrow> string \<Rightarrow> string \<Rightarrow> loader \<Rightarrow> loader" where
  "check_control what path rule_id l =
     (if known_rule_id (ld_rules l) rule_id then l
      else complain (''unknown '' @ what @ quoted rule_id @ '' in '' @ path @ [newline]) l)"

definition validate_rule_id_controls :: "string \<Rightarrow> loader \<Rightarrow> bool \<times> loader" where
  "validate_rule_id_controls path l =
     (let l = l\<lparr>ld_valid := True\<rparr>;
          l = fold (check_control ''disable_rule_id'' path) (vt_rows (ru_disabled_rule_ids (ld_rules l))) l;
          l = fold (check_control ''rule_severity rule_id'' path) (override_ids (ld_rules l)) l
      in (ld_valid l, l))"

definition load_rules_file ::
  "os_view \<Rightarrow> string \<Rightarrow> bool \<Rightarrow> string \<Rightarrow> bool \<Rightarrow> loader \<Rightarrow> bool \<times> loader" where
  "load_rules_file os errno_text rewinds path required l =
     (case os_file os path of
        None \<Rightarrow>
          if required
          then (False, complain (''failed to open config '' @ path @ '': '' @ errno_text @ [newline]) l)
          else (True, l)
      | Some content \<Rightarrow>
          (case select_profile_from_file errno_text rewinds path content l of (ok, l) \<Rightarrow>
             if \<not> ok then (False, l)
             else (let l = load_loop path 0 (fgets_lines CONFIG_LINE content) (l\<lparr>ld_valid := True\<rparr>)
                   in if \<not> ld_valid l then (False, l) else validate_rule_id_controls path l)))"

definition fresh_loader :: "edr_rules \<Rightarrow> loader" where
  "fresh_loader r = \<lparr>ld_rules = r, ld_valid = True, ld_stderr = []\<rparr>"

section \<open>What every step keeps\<close>

text \<open>
  A step of the loader keeps the policy well formed, only adds messages, and clears the flag exactly
  when it adds one.
\<close>

definition loader_step :: "loader \<Rightarrow> loader \<Rightarrow> bool" where
  "loader_step l l' \<longleftrightarrow> (rules_wf (ld_rules l) \<longrightarrow> rules_wf (ld_rules l')) \<and>
     (\<exists>msgs. ld_stderr l' = ld_stderr l @ msgs \<and> (ld_valid l' \<longleftrightarrow> ld_valid l \<and> msgs = []))"

named_theorems loader_intros \<open>steps of the loader\<close>

lemma loader_step_refl [loader_intros]: "loader_step l l"
  by (simp add: loader_step_def)

lemma loader_step_trans: "loader_step a b \<Longrightarrow> loader_step b c \<Longrightarrow> loader_step a c"
  unfolding loader_step_def by (elim conjE exE) auto

lemma loader_step_complain [loader_intros]: "loader_step l (complain msg l)"
  by (simp add: loader_step_def complain_def)

lemma loader_step_set [loader_intros]:
  "(rules_wf (ld_rules l) \<Longrightarrow> rules_wf r) \<Longrightarrow> loader_step l (set_rules r l)"
  by (simp add: loader_step_def set_rules_def)

lemma loader_step_store [loader_intros]:
  "(\<And>r'. r = Some r' \<Longrightarrow> rules_wf (ld_rules l) \<Longrightarrow> rules_wf r') \<Longrightarrow> loader_step l (store_or msg r l)"
  by (cases r) (auto simp: store_or_def intro: loader_intros)

lemma loader_step_if [loader_intros]:
  "(c \<Longrightarrow> loader_step l a) \<Longrightarrow> (\<not> c \<Longrightarrow> loader_step l b) \<Longrightarrow> loader_step l (if c then a else b)"
  by simp

text \<open>The tables of a well-formed policy can be replaced by well-formed ones.\<close>

lemma rules_wf_tables:
  assumes "rules_wf r"
  shows "rt_wf t \<Longrightarrow> rules_wf (r\<lparr>ru_suspicious_exec_exact := t\<rparr>)"
    and "rt_wf t \<Longrightarrow> rules_wf (r\<lparr>ru_suspicious_exec_prefix := t\<rparr>)"
    and "rt_wf t \<Longrightarrow> rules_wf (r\<lparr>ru_sensitive_read := t\<rparr>)"
    and "rt_wf t \<Longrightarrow> rules_wf (r\<lparr>ru_sensitive_write := t\<rparr>)"
    and "rt_wf p \<Longrightarrow> rules_wf (r\<lparr>ru_suspicious_ports := p\<rparr>)"
    and "vt_wf v \<Longrightarrow> rules_wf (r\<lparr>ru_jit_allow_comm := v\<rparr>)"
    and "vt_wf v \<Longrightarrow> rules_wf (r\<lparr>ru_flow_allow_transfer := v\<rparr>)"
    and "rules_wf (r\<lparr>ru_dedup_window_ns := w\<rparr>)" and "rules_wf (r\<lparr>ru_min_severity := s\<rparr>)"
    and "rules_wf (r\<lparr>ru_user_idle_threshold_seconds := u\<rparr>)"
  using assms by (simp_all add: rules_wf_def override_ids_def)

lemma rules_wf_parts:
  assumes "rules_wf r"
  shows "rt_wf (ru_suspicious_exec_exact r)" "rt_wf (ru_suspicious_exec_prefix r)"
    "rt_wf (ru_sensitive_read r)" "rt_wf (ru_sensitive_write r)" "rt_wf (ru_suspicious_ports r)"
    "vt_wf (ru_jit_allow_comm r)" "vt_wf (ru_flow_allow_transfer r)"
  using assms by (simp_all add: rules_wf_def)

lemma add_wf:
  "rt_wf t \<Longrightarrow> add_rule_value MAX_RULES v s i t = Some t' \<Longrightarrow> rt_wf t'"
  "rt_wf t \<Longrightarrow> add_path_rule MAX_RULES v s i t = Some t' \<Longrightarrow> rt_wf t'"
  "rt_wf p \<Longrightarrow> add_port_rule MAX_RULES v s i p = Some p' \<Longrightarrow> rt_wf p'"
  "vt_wf c \<Longrightarrow> add_comm_rule MAX_RULES v c = Some c' \<Longrightarrow> vt_wf c'"
  "vt_wf c \<Longrightarrow> add_target_rule MAX_RULES v c = Some c' \<Longrightarrow> vt_wf c'"
  by (drule (1) exec_store.add_Some [of t "(v, s, i)", unfolded add_rule_def, simplified]
      path_store.add_Some [of t "(v, s, i)", unfolded add_path_def, simplified]
      port_store.add_Some [of p "(v, s, i)", unfolded add_port_def, simplified]
      comm_store.add_Some target_store.add_Some, simp)+

text \<open>What a setting that succeeds makes of a well-formed policy.\<close>

lemma filled_wf:
  assumes "rules_wf r"
  shows "map_option (\<lambda>t. r\<lparr>ru_suspicious_exec_exact := t\<rparr>)
      (add_rule_value MAX_RULES v s i (ru_suspicious_exec_exact r)) = Some r' \<Longrightarrow> rules_wf r'"
    and "map_option (\<lambda>t. r\<lparr>ru_suspicious_exec_prefix := t\<rparr>)
      (add_rule_value MAX_RULES v s i (ru_suspicious_exec_prefix r)) = Some r' \<Longrightarrow> rules_wf r'"
    and "map_option (\<lambda>t. r\<lparr>ru_sensitive_read := t\<rparr>)
      (add_path_rule MAX_RULES v s i (ru_sensitive_read r)) = Some r' \<Longrightarrow> rules_wf r'"
    and "map_option (\<lambda>t. r\<lparr>ru_sensitive_write := t\<rparr>)
      (add_path_rule MAX_RULES v s i (ru_sensitive_write r)) = Some r' \<Longrightarrow> rules_wf r'"
    and "map_option (\<lambda>t. r\<lparr>ru_suspicious_ports := t\<rparr>)
      (add_port_rule MAX_RULES v s i (ru_suspicious_ports r)) = Some r' \<Longrightarrow> rules_wf r'"
    and "map_option (\<lambda>t. r\<lparr>ru_jit_allow_comm := t\<rparr>)
      (add_comm_rule MAX_RULES v (ru_jit_allow_comm r)) = Some r' \<Longrightarrow> rules_wf r'"
    and "map_option (\<lambda>t. r\<lparr>ru_flow_allow_transfer := t\<rparr>)
      (add_target_rule MAX_RULES v (ru_flow_allow_transfer r)) = Some r' \<Longrightarrow> rules_wf r'"
  unfolding map_option_eq_Some
  by (elim exE conjE, hypsubst, rule rules_wf_tables [OF assms], erule add_wf [rotated],
      rule rules_wf_parts [OF assms])+

lemma emptied_wf:
  assumes "rules_wf r"
  shows "rules_wf (drop_exec_exact v r)" "rules_wf (disable_exec_prefix v r)"
    "rules_wf (disable_sensitive_read v r)" "rules_wf (disable_sensitive_write v r)"
    "rules_wf (drop_jit_comm v r)" "rules_wf (disable_flow_allow v r)"
    "rules_wf (r\<lparr>ru_suspicious_ports := snd (remove_port_rule v (ru_suspicious_ports r))\<rparr>)"
  unfolding drop_exec_exact_def disable_exec_prefix_def disable_sensitive_read_def
    disable_sensitive_write_def drop_jit_comm_def disable_flow_allow_def
  by (rule rules_wf_tables [OF assms], simp add: rules_wf_parts [OF assms] exec_store.inv_remove
      path_store.inv_remove comm_store.inv_remove target_store.inv_remove port_store.inv_remove)+

lemma text_rule_step:
  assumes "\<And>v s i r'. add v s i = Some r' \<Longrightarrow> rules_wf (ld_rules l) \<Longrightarrow> rules_wf r'"
  shows "loader_step l (text_rule_setting key d did add value here l)"
proof (cases "fst (split_rule_value value d did)")
  case None
  then show ?thesis by (simp add: text_rule_setting_def loader_step_complain)
next
  case (Some p)
  then show ?thesis
    by (cases p) (simp add: text_rule_setting_def, rule loader_step_store, rule assms)
qed

lemma table_setting_steps [loader_intros]:
  "loader_step l (exec_exact_setting value here l)"
  "loader_step l (exec_prefix_setting value here l)"
  "loader_step l (sensitive_read_setting value here l)"
  "loader_step l (sensitive_write_setting value here l)"
  "loader_step l (jit_allow_setting value here l)"
  "loader_step l (flow_allow_setting value here l)"
  unfolding exec_exact_setting_def exec_prefix_setting_def sensitive_read_setting_def
    sensitive_write_setting_def jit_allow_setting_def flow_allow_setting_def
  by (rule text_rule_step loader_step_store, erule (1) filled_wf [rotated])+

lemma port_setting_step [loader_intros]: "loader_step l (port_setting value here l)"
proof -
  obtain parts v where s: "split_rule_value value EDR_SEV_WARN ''net.suspicious_port'' = (parts, v)"
    by (cases "split_rule_value value EDR_SEV_WARN ''net.suspicious_port''")
  show ?thesis unfolding port_setting_def s prod.case
  proof (rule loader_step_store)
    fix r'
    assume r': "(case parts of None \<Rightarrow> None | Some (rule_value, severity, rule_id) \<Rightarrow>
        map_option (\<lambda>t. (ld_rules l)\<lparr>ru_suspicious_ports := t\<rparr>)
          (add_port_rule MAX_RULES rule_value severity rule_id (ru_suspicious_ports (ld_rules l)))) = Some r'"
      and wf: "rules_wf (ld_rules l)"
    then obtain v s i where "map_option (\<lambda>t. (ld_rules l)\<lparr>ru_suspicious_ports := t\<rparr>)
        (add_port_rule MAX_RULES v s i (ru_suspicious_ports (ld_rules l))) = Some r'"
      by (cases parts; cases "the parts") auto
    then show "rules_wf r'" by (rule filled_wf(5) [OF wf])
  qed
qed

lemma disable_steps [loader_intros]:
  "loader_step l (set_rules (drop_exec_exact value (ld_rules l)) l)"
  "loader_step l (set_rules (disable_exec_prefix value (ld_rules l)) l)"
  "loader_step l (set_rules (disable_sensitive_read value (ld_rules l)) l)"
  "loader_step l (set_rules (disable_sensitive_write value (ld_rules l)) l)"
  "loader_step l (set_rules (drop_jit_comm value (ld_rules l)) l)"
  "loader_step l (set_rules (disable_flow_allow value (ld_rules l)) l)"
  by (rule loader_step_set, erule emptied_wf)+

lemma disable_port_step [loader_intros]: "loader_step l (disable_port_setting value here l)"
proof -
  obtain b t where r: "remove_port_rule value (ru_suspicious_ports (ld_rules l)) = (b, t)"
    by (cases "remove_port_rule value (ru_suspicious_ports (ld_rules l))")
  let ?l = "set_rules ((ld_rules l)\<lparr>ru_suspicious_ports := t\<rparr>) l"
  have "loader_step l ?l"
    using emptied_wf(7) [of "ld_rules l" "value"] by (intro loader_step_set) (simp add: r)
  then have "loader_step l (if b then ?l else complain m ?l)" for m
    by (simp add: loader_step_trans [OF _ loader_step_complain])
  then show ?thesis by (simp only: disable_port_setting_def r prod.case Let_def)
qed

lemma control_setting_steps [loader_intros]:
  "loader_step l (disable_rule_id_setting value here l)"
  "loader_step l (rule_severity_setting value here l)"
proof -
  show "loader_step l (disable_rule_id_setting value here l)"
    unfolding disable_rule_id_setting_def
    by (rule loader_step_store) (auto split: if_splits dest: add_disabled_rule_id_Some(1))
  have id: "valid_rule_id i" if "parse_rule_severity_control v = Some (i, s)" for v i s
    using that by (auto simp: parse_rule_severity_control_def Let_def split: option.splits if_splits)
  show "loader_step l (rule_severity_setting value here l)"
    unfolding rule_severity_setting_def
  proof (rule loader_step_store)
    fix r'
    assume "(case parse_rule_severity_control value of None \<Rightarrow> None
        | Some (rule_id, severity) \<Rightarrow> add_rule_severity_override rule_id severity (ld_rules l)) = Some r'"
      and wf: "rules_wf (ld_rules l)"
    then obtain i s where "parse_rule_severity_control value = Some (i, s)"
      "add_rule_severity_override i s (ld_rules l) = Some r'"
      by (cases "parse_rule_severity_control value"; cases "the (parse_rule_severity_control value)") auto
    then show "rules_wf r'" using add_rule_severity_override_Some [OF wf id] by blast
  qed
qed

lemma number_setting_steps [loader_intros]:
  "loader_step l (dedup_window_setting value here l)"
  "loader_step l (idle_threshold_setting value here l)"
  "loader_step l (min_severity_setting value here l)"
  unfolding dedup_window_setting_def idle_threshold_setting_def min_severity_setting_def
  by (rule loader_step_store; auto split: option.splits if_splits intro: rules_wf_tables)+

lemma config_entry_step [loader_intros]: "loader_step l (config_entry key value here l)"
  unfolding config_entry_def by (intro loader_step_if loader_intros)

lemma config_line_step [loader_intros]: "loader_step l (config_line path n line l)"
  unfolding config_line_def
  by (cases "read_config_line line"; simp only: config_text.case) (intro loader_intros)+

lemma load_loop_step [loader_intros]: "loader_step l (load_loop path n lines l)"
  by (induction path n lines l rule: load_loop.induct)
    (auto intro: loader_intros loader_step_trans [OF config_line_step])

lemma profile_loop_step: "loader_step (snd s) (snd (profile_loop path n lines s)) \<and>
    ld_rules (snd (profile_loop path n lines s)) = ld_rules (snd s)"
proof (induction path n lines s rule: profile_loop.induct)
  case (2 path n line lines s)
  have "loader_step (snd s) (snd (profile_line path (n + 1) line s))"
    "ld_rules (snd (profile_line path (n + 1) line s)) = ld_rules (snd s)"
    by (auto simp: profile_line_def complain_def loader_step_def split: prod.split config_text.split option.split)
  then show ?case using 2 loader_step_trans by auto
qed (simp add: loader_step_refl)

lemma check_control_steps:
  "loader_step l (fold (check_control what path) ids l) \<and>
   ld_rules (fold (check_control what path) ids l) = ld_rules l \<and>
   (ld_valid (fold (check_control what path) ids l) \<longleftrightarrow>
      ld_valid l \<and> (\<forall>i \<in> set ids. known_rule_id (ld_rules l) i))"
proof (induction ids arbitrary: l)
  case (Cons i ids)
  have "loader_step l (check_control what path i l)" "ld_rules (check_control what path i l) = ld_rules l"
    "ld_valid (check_control what path i l) \<longleftrightarrow> ld_valid l \<and> known_rule_id (ld_rules l) i"
    by (simp_all add: check_control_def complain_def loader_step_def)
  then show ?case using Cons [of "check_control what path i l"] loader_step_trans by auto
qed (simp add: loader_step_refl)

lemma apply_profile_keeps:
  assumes wf: "rules_wf r" and run: "apply_profile p r = (ok, r')"
  shows "rules_wf r'"
    and "{''curl'', ''wget''} \<subseteq> fst ` set (rt_rows (ru_suspicious_exec_exact r)) \<Longrightarrow> ok"
proof -
  define s where "s = r\<lparr>ru_profile := p, ru_profile_name := profile_name p\<rparr>"
  have s: "rules_wf s" using wf by (simp add: s_def)
  have "rules_wf r' \<and> ({''curl'', ''wget''} \<subseteq> fst ` set (rt_rows (ru_suspicious_exec_exact r)) \<longrightarrow> ok)"
  proof (cases p)
    case EDR_PROFILE_SERVER
    define t where "t = drop_jit_comm ''firefox'' (drop_jit_comm ''chromium'' (drop_jit_comm ''chrome'' s))"
    have t: "rules_wf t" using drop_browsers(1) [OF s] by (simp add: t_def)
    have e: "ru_suspicious_exec_exact t = ru_suspicious_exec_exact r"
      by (simp add: t_def s_def drop_jit_comm_def)
    have c: "(case add_profile_exec_exact_if_missing ''curl'' t of None \<Rightarrow> (False, t)
        | Some u \<Rightarrow> (case add_profile_exec_exact_if_missing ''wget'' u of None \<Rightarrow> (False, u)
                      | Some u' \<Rightarrow> (True, u'))) = (ok, r')"
      using run unfolding t_def s_def EDR_PROFILE_SERVER apply_profile_def Let_def by simp
    have same: "add_profile_exec_exact_if_missing v t = Some t"
      if "v \<in> fst ` set (rt_rows (ru_suspicious_exec_exact r))" for v
      using that rules_wf_parts(1) [OF t] e
      by (simp add: add_profile_exec_exact_if_missing_def string_rule_present_iff)
    then have "ok" if "{''curl'', ''wget''} \<subseteq> fst ` set (rt_rows (ru_suspicious_exec_exact r))"
      using that c same [of "''curl''"] same [of "''wget''"] by simp
    then show ?thesis using list_both(1) [OF t c] by blast
  qed (use run s drop_shells(1) [OF s] in \<open>auto simp: apply_profile_def s_def Let_def\<close>)
  then show "rules_wf r'"
    "{''curl'', ''wget''} \<subseteq> fst ` set (rt_rows (ru_suspicious_exec_exact r)) \<Longrightarrow> ok" by blast+
qed

lemma step_from_clean:
  assumes "loader_step l l'" and "ld_valid l" and "ld_stderr l = []"
  shows "ld_valid l' \<longleftrightarrow> ld_stderr l' = []"
  using assms by (auto simp: loader_step_def)

definition names_curl_wget :: "edr_rules \<Rightarrow> bool" where
  "names_curl_wget r \<longleftrightarrow> {''curl'', ''wget''} \<subseteq> fst ` set (rt_rows (ru_suspicious_exec_exact r))"

lemma select_profile_outcome:
  assumes "rules_wf r" and "names_curl_wget r"
    and "select_profile_from_file err rew path content (fresh_loader r) = (ok, l)"
  shows "(ok \<longleftrightarrow> ld_stderr l = []) \<and> rules_wf (ld_rules l) \<and> (\<exists>p. ok \<longrightarrow> apply_profile p r = (True, ld_rules l))
    \<and> (\<not> ok \<longrightarrow> ld_rules l = r)"
proof -
  let ?s = "(EDR_PROFILE_BASELINE, (fresh_loader r)\<lparr>ld_valid := True\<rparr>)"
  obtain p l1 where p: "profile_loop path 0 (fgets_lines CONFIG_LINE content) ?s = (p, l1)"
    by (cases "profile_loop path 0 (fgets_lines CONFIG_LINE content) ?s")
  have s: "loader_step (fresh_loader r) l1" "ld_rules l1 = r"
    using profile_loop_step [of ?s path 0 "fgets_lines CONFIG_LINE content"] p
    by (simp_all add: fresh_loader_def)
  have clean: "ld_valid l1 \<longleftrightarrow> ld_stderr l1 = []"
    using step_from_clean [OF s(1)] by (simp add: fresh_loader_def)
  obtain ok' r' where a: "apply_profile p r = (ok', r')" by (cases "apply_profile p r")
  have ok': "ok'" "rules_wf r'"
    using apply_profile_keeps [OF assms(1) a] assms(2) by (simp_all add: names_curl_wget_def)
  consider "\<not> rew" | "rew" "\<not> ld_valid l1" | "rew" "ld_valid l1" by blast
  then show ?thesis
    by cases (use assms(1,3) p s a ok' clean in \<open>auto simp: select_profile_from_file_def complain_def set_rules_def\<close>)
qed

lemma validate_outcome:
  assumes "validate_rule_id_controls path l = (ok, l')" and "ld_stderr l = []"
  shows "ok \<longleftrightarrow> ld_stderr l' = []" and "ld_rules l' = ld_rules l"
    and "ok \<longleftrightarrow> (\<forall>i \<in> set (vt_rows (ru_disabled_rule_ids (ld_rules l))) \<union> set (override_ids (ld_rules l)).
      known_rule_id (ld_rules l) i)"
proof -
  define l0 where "l0 = l\<lparr>ld_valid := True\<rparr>"
  define l1 where "l1 = fold (check_control ''disable_rule_id'' path) (vt_rows (ru_disabled_rule_ids (ld_rules l0))) l0"
  have l': "l' = fold (check_control ''rule_severity rule_id'' path) (override_ids (ld_rules l1)) l1"
    and ok: "ok = ld_valid l'"
    using assms(1) by (auto simp: validate_rule_id_controls_def Let_def l0_def l1_def)
  note c1 = check_control_steps [of l0 "''disable_rule_id''" path "vt_rows (ru_disabled_rule_ids (ld_rules l0))",
      folded l1_def]
  note c2 = check_control_steps [of l1 "''rule_severity rule_id''" path "override_ids (ld_rules l1)", folded l']
  have "loader_step l0 l'" using c1 c2 loader_step_trans by blast
  then show "ok \<longleftrightarrow> ld_stderr l' = []"
    using step_from_clean [of l0 l'] assms(2) ok by (simp add: l0_def)
  show "ld_rules l' = ld_rules l" using c1 c2 by (simp add: l0_def)
  show "ok \<longleftrightarrow> (\<forall>i \<in> set (vt_rows (ru_disabled_rule_ids (ld_rules l))) \<union> set (override_ids (ld_rules l)).
      known_rule_id (ld_rules l) i)"
    using c1 c2 ok by (auto simp: l0_def)
qed

lemma load_outcome:
  assumes wf: "rules_wf r" and cw: "names_curl_wget r"
    and run: "load_rules_file os err rew path req (fresh_loader r) = (ok, l)"
  shows "ok \<longleftrightarrow> ld_stderr l = []" and "rules_wf (ld_rules l)"
    and "ok \<Longrightarrow> os_file os path \<noteq> None \<Longrightarrow>
      \<forall>i \<in> set (vt_rows (ru_disabled_rule_ids (ld_rules l))) \<union> set (override_ids (ld_rules l)).
        known_rule_id (ld_rules l) i"
    and "os_file os path = None \<Longrightarrow> ok = (\<not> req) \<and> ld_rules l = r"
proof -
  have all: "(ok \<longleftrightarrow> ld_stderr l = []) \<and> rules_wf (ld_rules l) \<and>
    (ok \<longrightarrow> os_file os path \<noteq> None \<longrightarrow>
      (\<forall>i \<in> set (vt_rows (ru_disabled_rule_ids (ld_rules l))) \<union> set (override_ids (ld_rules l)).
        known_rule_id (ld_rules l) i)) \<and>
    (os_file os path = None \<longrightarrow> ok = (\<not> req) \<and> ld_rules l = r)"
  proof (cases "os_file os path")
    case None
    then show ?thesis using run wf
      by (auto simp: load_rules_file_def fresh_loader_def complain_def split: if_splits)
  next
    case (Some content)
    obtain ok1 l1 where s: "select_profile_from_file err rew path content (fresh_loader r) = (ok1, l1)"
      by (cases "select_profile_from_file err rew path content (fresh_loader r)")
    note so = select_profile_outcome [OF wf cw s]
    show ?thesis
    proof (cases ok1)
      case False
      then show ?thesis using run so by (auto simp: load_rules_file_def Some s)
    next
      case True
      define l2 where "l2 = load_loop path 0 (fgets_lines CONFIG_LINE content) (l1\<lparr>ld_valid := True\<rparr>)"
      have st: "loader_step (l1\<lparr>ld_valid := True\<rparr>) l2" unfolding l2_def by (rule load_loop_step)
      have c2: "ld_valid l2 \<longleftrightarrow> ld_stderr l2 = []" using step_from_clean [OF st] so True by simp
      have w2: "rules_wf (ld_rules l2)" using st so by (simp add: loader_step_def)
      have run2: "(if \<not> ld_valid l2 then (False, l2) else validate_rule_id_controls path l2) = (ok, l)"
        using run True unfolding l2_def load_rules_file_def Some s option.case prod.case Let_def by simp
      show ?thesis
      proof (cases "ld_valid l2")
        case False
        then show ?thesis using run2 c2 w2 Some by auto
      next
        case v: True
        then have "validate_rule_id_controls path l2 = (ok, l)" using run2 by simp
        note vo = validate_outcome [OF this]
        show ?thesis using vo c2 v w2 Some by simp
      qed
    qed
  qed
  then show "ok \<longleftrightarrow> ld_stderr l = []" "rules_wf (ld_rules l)"
    "ok \<Longrightarrow> os_file os path \<noteq> None \<Longrightarrow>
      \<forall>i \<in> set (vt_rows (ru_disabled_rule_ids (ld_rules l))) \<union> set (override_ids (ld_rules l)).
        known_rule_id (ld_rules l) i"
    "os_file os path = None \<Longrightarrow> ok = (\<not> req) \<and> ld_rules l = r"
    by blast+
qed

lemma defaults_name_curl_wget: "names_curl_wget init_default_rules"
  by (simp add: names_curl_wget_def init_default_tables default_rows_def default_exec_exact_def)

section \<open>Values\<close>

lemma split_value_plain:
  "CHR '','' \<notin> set v \<Longrightarrow> trim v \<noteq> [] \<Longrightarrow> fst (split_rule_value v s i) = Some (trim v, s, i)"
  by (simp add: split_rule_value_def split_last_None [THEN iffD2] finish_value_def Let_def)

lemma severity_chars:
  assumes "parse_severity t = Some s"
  shows "\<forall>c \<in> set t. c \<noteq> NUL \<and> \<not> is_blank c \<and> c \<noteq> CHR '',''" and "t \<noteq> []"
proof -
  have "t \<in> {''info'', ''0'', ''warn'', ''warning'', ''1'', ''critical'', ''crit'', ''2''}"
    using assms by (simp add: parse_severity_def split: if_split_asm) (elim disjE; simp)+
  then show "\<forall>c \<in> set t. c \<noteq> NUL \<and> \<not> is_blank c \<and> c \<noteq> CHR '',''" "t \<noteq> []"
    by (simp_all add: is_blank_def) (elim disjE; simp)+
qed

lemma severity_text:
  assumes "parse_severity t = Some s"
  shows "CHR '','' \<notin> set t" "trim t = t" "t \<noteq> []"
proof -
  have c: "\<forall>c \<in> set t. \<not> is_blank c \<and> c \<noteq> CHR '',''" and ne: "t \<noteq> []"
    using severity_chars [OF assms] by auto
  show "CHR '','' \<notin> set t" "t \<noteq> []" using c ne by auto
  show "trim t = t" using c ne by (intro trim_id) simp_all
qed

lemma split_value_severity:
  assumes "parse_severity t = Some s" and "trim v \<noteq> []"
  shows "fst (split_rule_value (v @ CHR '','' # t) d i) = Some (trim v, s, i)"
proof -
  have "split_last (CHR '','') (v @ CHR '','' # t) = Some (v, t)"
    using severity_text(1) [OF assms(1)] by (simp add: split_last_Some)
  then show ?thesis using assms severity_text(2) [OF assms(1)]
    by (simp add: split_rule_value_def finish_value_def Let_def)
qed

lemma rule_id_text:
  assumes "valid_rule_id i"
  shows "CHR '','' \<notin> set i" "trim i = i" "i \<noteq> []"
proof -
  have c: "c \<noteq> CHR '','' \<and> \<not> is_blank c" if "c \<in> set i" for c
    using assms that by (auto simp: valid_rule_id_def list_all_iff rule_id_char_def is_blank_def Let_def)
  show "i \<noteq> []" using assms by (simp add: valid_rule_id_def)
  then show "trim i = i" using c by (intro trim_id) simp_all
  show "CHR '','' \<notin> set i" using c by blast
qed

lemma split_value_full:
  assumes "parse_severity t = Some s" and "valid_rule_id i" and "parse_severity i = None" and "trim v \<noteq> []"
  shows "fst (split_rule_value (v @ CHR '','' # t @ CHR '','' # i) d j) = Some (trim v, s, i)"
proof -
  have "split_last (CHR '','') (v @ CHR '','' # t @ CHR '','' # i) = Some (v @ CHR '','' # t, i)"
    using rule_id_text(1) [OF assms(2)] by (simp add: split_last_Some)
  moreover have "split_last (CHR '','') (v @ CHR '','' # t) = Some (v, t)"
    using severity_text(1) [OF assms(1)] by (simp add: split_last_Some)
  ultimately show ?thesis
    using assms severity_text(2) [OF assms(1)] rule_id_text(2) [OF assms(2)]
    by (simp add: split_rule_value_def finish_value_def Let_def)
qed

section \<open>A file of rules\<close>

text \<open>Lines that fit the buffer come back one by one.\<close>

lemma fgets_lines_concat:
  "\<forall>s \<in> set ls. newline \<notin> set s \<and> length s + 1 < n \<Longrightarrow>
   fgets_lines n (concat (map (\<lambda>s. s @ [newline]) ls)) = map (\<lambda>s. s @ [newline]) ls"
proof (induction ls)
  case Nil
  then show ?case by (subst fgets_lines.simps) (simp add: fgets_def)
next
  case (Cons s ls)
  then show ?case by (subst fgets_lines.simps) (simp add: fgets_line)
qed

definition setting_text :: "string \<Rightarrow> string \<times> string \<times> string \<Rightarrow> string" where
  "setting_text key row = (case row of (v, t, i) \<Rightarrow> key @ CHR ''='' # v @ CHR '','' # t @ CHR '','' # i)"

text \<open>
  A row that can be written as one line of at most 511 bytes: value, severity text and rule id.
\<close>

definition writable_row :: "string \<Rightarrow> string \<times> string \<times> string \<Rightarrow> bool" where
  "writable_row key row \<longleftrightarrow> (case row of (v, t, i) \<Rightarrow>
     v \<noteq> [] \<and> trim v = v \<and> is_cstr v \<and> newline \<notin> set v \<and> length v < 256 \<and>
     parse_severity t \<noteq> None \<and> valid_rule_id i \<and> parse_severity i = None \<and>
     length (setting_text key row) < 511)"

definition parsed_row :: "string \<times> string \<times> string \<Rightarrow> string rule_row" where
  "parsed_row row = (case row of (v, t, i) \<Rightarrow> (v, the (parse_severity t), i))"

lemma text_chars:
  assumes "parse_severity t \<noteq> None \<or> valid_rule_id t"
  shows "is_cstr t" "newline \<notin> set t" "t \<noteq> []" "\<not> is_blank (last t)"
proof -
  have "\<forall>c \<in> set t. c \<noteq> NUL \<and> \<not> is_blank c \<and> c \<noteq> newline" and ne: "t \<noteq> []"
  proof -
    show "t \<noteq> []" using assms severity_text(3) rule_id_text(3) by auto
    show "\<forall>c \<in> set t. c \<noteq> NUL \<and> \<not> is_blank c \<and> c \<noteq> newline"
    proof (cases "valid_rule_id t")
      case True
      then show ?thesis
        by (auto simp: valid_rule_id_def list_all_iff rule_id_char_def is_blank_def Let_def)
    next
      case False
      then show ?thesis using assms severity_chars by (auto simp: is_blank_def)
    qed
  qed
  then show "is_cstr t" "newline \<notin> set t" "t \<noteq> []" "\<not> is_blank (last t)"
    using last_in_set [of t] by (auto simp: is_cstr_def)
qed

lemma trimmed_hd: "trim v = v \<Longrightarrow> v \<noteq> [] \<Longrightarrow> \<not> is_blank (hd v)"
  using trim_ends(1) [of v] by simp

lemma read_setting:
  assumes "writable_row key row" and "key \<noteq> []" and "trim key = key" and "is_cstr key"
    and "CHR ''='' \<notin> set key" and "hd key \<noteq> CHR ''#''"
  shows "read_config_line (setting_text key row @ [newline]) =
    Setting key (case row of (v, t, i) \<Rightarrow> v @ CHR '','' # t @ CHR '','' # i)"
proof -
  obtain v t i where row: "row = (v, t, i)" by (cases row)
  let ?w = "v @ CHR '','' # t @ CHR '','' # i"
  note r = assms(1) [unfolded writable_row_def row, simplified]
  have t: "is_cstr t" and i: "is_cstr i" "i \<noteq> []" "\<not> is_blank (last i)"
    using text_chars [of t] text_chars [of i] r by auto
  have w: "trim ?w = ?w"
    using trimmed_hd [of v] r i by (intro trim_id) (auto simp: hd_append)
  have line: "trim (key @ CHR ''='' # ?w) = key @ CHR ''='' # ?w"
    using trimmed_hd [OF assms(3,2)] assms(2) i by (intro trim_id) (auto simp: hd_append)
  have "trim ([] @ (key @ CHR ''='' # ?w) @ [newline]) = trim (key @ CHR ''='' # ?w)"
    by (rule trim_pad) (simp_all add: is_blank_def)
  moreover have "is_cstr (setting_text key row @ [newline])"
    using assms(4) r t i by (simp add: setting_text_def row)
  ultimately have "trim (cstr (setting_text key row @ [newline])) = key @ CHR ''='' # ?w"
    using line by (simp add: setting_text_def row)
  moreover have "split_first (CHR ''='') (key @ CHR ''='' # ?w) = Some (key, ?w)"
    using assms(5) by (simp add: split_first_Some)
  ultimately show ?thesis using assms(2,3,6) w
    by (simp add: read_config_line_def Let_def row hd_append)
qed

lemma read_row_line:
  assumes wf: "rules_wf (ld_rules l)" and row: "writable_row ''sensitive_read'' row"
    and room: "length (rt_rows (ru_sensitive_read (ld_rules l))) < MAX_RULES"
  obtains t where "config_line path n (setting_text ''sensitive_read'' row @ [newline]) l =
      set_rules ((ld_rules l)\<lparr>ru_sensitive_read := t\<rparr>) l"
    and "rt_wf t" and "rt_rows t = rt_rows (ru_sensitive_read (ld_rules l)) @ [parsed_row row]"
proof -
  obtain v s i where r: "row = (v, s, i)" by (cases row)
  note w = row [unfolded writable_row_def r, simplified]
  obtain sev where sev: "parse_severity s = Some sev" using w by auto
  let ?t = "ru_sensitive_read (ld_rules l)"
  have tw: "rt_wf ?t" by (rule rules_wf_parts(3) [OF wf])
  obtain t' where t': "add_path (v, sev, i) ?t = Some t'" "rt_wf t'"
    "rt_rows t' = rt_rows ?t @ [(snprintf_s 256 v, sev, snprintf_s MAX_RULE_ID i)]"
    using path_store.add_obtain [OF tw _ room, of "(v, sev, i)"] by auto
  have "trim ''sensitive_read'' = ''sensitive_read''" by (rule trim_id) (simp_all add: is_blank_def)
  then have "read_config_line (setting_text ''sensitive_read'' row @ [newline]) =
      Setting ''sensitive_read'' (v @ CHR '','' # s @ CHR '','' # i)"
    using read_setting [OF row] by (simp add: r)
  moreover have "fst (split_rule_value (v @ CHR '','' # s @ CHR '','' # i) d j) = Some (v, sev, i)" for d j
    using split_value_full [OF sev, of i v] w by simp
  moreover have "add_path_rule MAX_RULES v sev i ?t = Some t'" using t'(1) by (simp add: add_path_def)
  ultimately have "config_line path n (setting_text ''sensitive_read'' row @ [newline]) l =
      set_rules ((ld_rules l)\<lparr>ru_sensitive_read := t'\<rparr>) l"
    by (simp add: config_line_def config_entry_def sensitive_read_setting_def text_rule_setting_def
        store_or_def set_rules_def)
  moreover have "rt_rows t' = rt_rows ?t @ [parsed_row row]"
    using t'(3) w sev valid_rule_id_fits [of i] by (simp add: parsed_row_def r snprintf_s_fits)
  ultimately show thesis using that t'(2) by blast
qed

lemma load_rows:
  assumes "rules_wf (ld_rules l)" and "\<forall>row \<in> set rows. writable_row ''sensitive_read'' row"
    and "length (rt_rows (ru_sensitive_read (ld_rules l))) + length rows \<le> MAX_RULES"
  shows "\<exists>t. load_loop path n (map (\<lambda>s. s @ [newline]) (map (setting_text ''sensitive_read'') rows)) l =
      set_rules ((ld_rules l)\<lparr>ru_sensitive_read := t\<rparr>) l \<and>
    rt_wf t \<and> rt_rows t = rt_rows (ru_sensitive_read (ld_rules l)) @ map parsed_row rows"
  using assms
proof (induction rows arbitrary: n l)
  case Nil
  then show ?case using rules_wf_parts(3) [OF Nil(1)]
    by (intro exI [of _ "ru_sensitive_read (ld_rules l)"]) (simp add: set_rules_def)
next
  case (Cons row rows)
  obtain t where t: "config_line path (n + 1) (setting_text ''sensitive_read'' row @ [newline]) l =
      set_rules ((ld_rules l)\<lparr>ru_sensitive_read := t\<rparr>) l" "rt_wf t"
    "rt_rows t = rt_rows (ru_sensitive_read (ld_rules l)) @ [parsed_row row]"
    using read_row_line [OF Cons.prems(1), of row path "n + 1"] Cons.prems(2,3) by auto
  let ?l = "set_rules ((ld_rules l)\<lparr>ru_sensitive_read := t\<rparr>) l"
  have "rules_wf (ld_rules ?l)" using rules_wf_tables(3) [OF Cons.prems(1) t(2)] by (simp add: set_rules_def)
  then have "\<exists>t'. load_loop path (n + 1) (map (\<lambda>s. s @ [newline]) (map (setting_text ''sensitive_read'') rows)) ?l =
      set_rules ((ld_rules ?l)\<lparr>ru_sensitive_read := t'\<rparr>) ?l \<and>
    rt_wf t' \<and> rt_rows t' = rt_rows (ru_sensitive_read (ld_rules ?l)) @ map parsed_row rows"
    by (rule Cons.IH) (use Cons.prems(2,3) t(3) in \<open>simp_all add: set_rules_def\<close>)
  then show ?case using t(1,3) by (auto simp: set_rules_def)
qed

lemma no_profile_lines:
  assumes "\<forall>row \<in> set rows. writable_row ''sensitive_read'' row"
  shows "profile_loop path n (map (\<lambda>s. s @ [newline]) (map (setting_text ''sensitive_read'') rows)) s = s"
  using assms
proof (induction rows arbitrary: n s)
  case (Cons row rows)
  have "trim ''sensitive_read'' = ''sensitive_read''" by (rule trim_id) (simp_all add: is_blank_def)
  then have "\<exists>v. read_config_line (setting_text ''sensitive_read'' row @ [newline]) = Setting ''sensitive_read'' v"
    using read_setting [of "''sensitive_read''" row] Cons.prems by auto
  then have "profile_line path k (setting_text ''sensitive_read'' row @ [newline]) s = s" for k
    by (cases s) (auto simp: profile_line_def)
  then show ?case using Cons by simp
qed simp

text \<open>
  A comment longer than the buffer is read in pieces, and what follows its first 511 bytes is taken
  for a line of its own.
\<close>

lemma long_comment_is_split:
  assumes "length c = 510" and "newline \<notin> set c" and "newline \<notin> set s" and "s \<noteq> []" and "length s < 511"
  shows "fgets_lines CONFIG_LINE (CHR ''#'' # c @ s @ [newline]) = [CHR ''#'' # c, s @ [newline]]"
    and "read_config_line (CHR ''#'' # c) = Ignored"
proof -
  have up: "upto_newline x = x" if "newline \<notin> set x" for x
    using that by (induction x) auto
  have "take 511 (CHR ''#'' # c @ s @ [newline]) = CHR ''#'' # c" using assms(1) by simp
  then have "fgets 512 (CHR ''#'' # c @ s @ [newline]) = Some (CHR ''#'' # c, s @ [newline])"
    using up [of "CHR ''#'' # c"] assms(1,2) by (simp add: fgets_def Let_def)
  moreover have "fgets_lines 512 (s @ [newline]) = [s @ [newline]]"
    using fgets_lines_concat [of "[s]" 512] assms(3,5) by simp
  ultimately show "fgets_lines CONFIG_LINE (CHR ''#'' # c @ s @ [newline]) = [CHR ''#'' # c, s @ [newline]]"
    by (subst fgets_lines.simps) simp
  have "cstr (CHR ''#'' # c) = CHR ''#'' # takeWhile (\<lambda>x. x \<noteq> NUL) c" by (simp add: cstr_def)
  then show "read_config_line (CHR ''#'' # c) = Ignored"
    by (auto simp: read_config_line_def trim_def is_blank_def Let_def)
qed

section \<open>Properties\<close>

text \<open>
  C26.  The value syntax: a value alone gets the default severity and rule id, a value with a severity gets
  the default id, a value with severity and id gets both; the value itself may contain commas in the
  last two forms.  Blanks around the value do not matter.
\<close>

theorem split_rule_value_forms:
  assumes "trim v \<noteq> []" and "parse_severity t = Some s" and "valid_rule_id i" and "parse_severity i = None"
  shows "(CHR '','' \<notin> set v \<longrightarrow> fst (split_rule_value v d j) = Some (trim v, d, j)) \<and>
    fst (split_rule_value (v @ CHR '','' # t) d j) = Some (trim v, s, j) \<and>
    fst (split_rule_value (v @ CHR '','' # t @ CHR '','' # i) d j) = Some (trim v, s, i)"
  using split_value_plain [OF _ assms(1)] split_value_severity [OF assms(2,1)] split_value_full [OF assms(2,3,4,1)]
  by simp

theorem split_rule_value_forms_witness:
  "fst (split_rule_value '' a,b ,crit,my.rule'' EDR_SEV_WARN ''exec.suspicious_exact'') =
     Some (''a,b'', EDR_SEV_CRITICAL, ''my.rule'')"
proof -
  have v: "trim ('' '' @ ''a,b'' @ '' '') = trim ''a,b''" by (rule trim_pad) (simp_all add: is_blank_def)
  have "trim ''a,b'' = ''a,b''" by (rule trim_id) (simp_all add: is_blank_def)
  then show ?thesis
    using split_rule_value_forms [of "'' a,b ''" "''crit''" EDR_SEV_CRITICAL "''my.rule''" EDR_SEV_WARN
        "''exec.suspicious_exact''"] v
    by (simp add: parse_severity_def valid_rule_id_def rule_id_char_def MAX_RULE_ID_def)
qed

text \<open>
  C2.  Loading fails exactly when it says why: starting from the built-in policy the file is accepted if
  and only if nothing was written to \<open>stderr\<close>.  A missing file is an error only when the file is
  required, and leaves the built-in policy.
\<close>

theorem load_verdict:
  assumes "load_rules_file os err rew path req (fresh_loader init_default_rules) = (ok, l)"
  shows "(ok \<longleftrightarrow> ld_stderr l = []) \<and>
    (os_file os path = None \<longrightarrow> ok = (\<not> req) \<and> ld_rules l = init_default_rules)"
  using load_outcome [OF init_default_rules_wf defaults_name_curl_wget assms] by blast

theorem load_verdict_witness:
  "fst (load_rules_file sample_os ''No such file'' True ''rules.conf'' True (fresh_loader init_default_rules)) = False"
proof -
  have "os_file sample_os ''rules.conf'' = None" by (simp add: sample_os_def)
  then show ?thesis
    using load_verdict [OF surjective_pairing, of sample_os "''No such file''" True "''rules.conf''" True] by blast
qed

text \<open>
  C20.  The loaded policy: whatever the file holds, the tables stay within their bounds and the control
  table without duplicates; and if the file is accepted, every disabled or overridden rule id is one
  the daemon knows.
\<close>

theorem loaded_policy_sound:
  assumes "load_rules_file os err rew path req (fresh_loader init_default_rules) = (ok, l)"
  shows "rules_wf (ld_rules l) \<and>
    (ok \<longrightarrow> (\<forall>i. rule_id_disabled (ld_rules l) i \<or> override_map (ld_rules l) i \<noteq> None \<longrightarrow>
       known_rule_id (ld_rules l) i))"
proof -
  note l = load_outcome [OF init_default_rules_wf defaults_name_curl_wget assms]
  have "known_rule_id (ld_rules l) i"
    if "ok" and i: "rule_id_disabled (ld_rules l) i \<or> override_map (ld_rules l) i \<noteq> None" for i
  proof (cases "os_file os path")
    case None
    then show ?thesis using l(4) i init_default_controls by simp
  next
    case (Some content)
    have "i \<in> set (vt_rows (ru_disabled_rule_ids (ld_rules l))) \<union> set (override_ids (ld_rules l))"
      using i by (simp add: rule_id_disabled_iff override_map_None [OF l(2)])
    then show ?thesis using l(3) [OF \<open>ok\<close>] Some by blast
  qed
  then show ?thesis using l(2) by blast
qed

theorem loaded_policy_sound_witness:
  "rules_wf (ld_rules (snd (load_rules_file (sample_os\<lparr>os_file := (\<lambda>_. Some ''disable_rule_id=no.such'')\<rparr>)
     [] True ''rules.conf'' True (fresh_loader init_default_rules))))"
  using loaded_policy_sound [OF surjective_pairing, of "sample_os\<lparr>os_file := (\<lambda>_. Some ''disable_rule_id=no.such'')\<rparr>"
      "[]" True "''rules.conf''" True]
  by simp

text \<open>
  C19.  Writing and reading back: a file of \<open>sensitive_read\<close> lines made from any list of rows that fit is
  accepted, and the policy then holds the built-in rows followed by exactly these rows in order, with
  every other part of the built-in policy unchanged but the profile fields, which are set to baseline.
\<close>

theorem config_file_roundtrip:
  assumes "\<forall>row \<in> set rows. writable_row ''sensitive_read'' row"
    and "length default_read_paths + length rows \<le> MAX_RULES"
    and "os_file os path = Some (concat (map (\<lambda>s. s @ [newline]) (map (setting_text ''sensitive_read'') rows)))"
  shows "\<exists>t. load_rules_file os err True path req (fresh_loader init_default_rules) =
      (True, fresh_loader (init_default_rules\<lparr>ru_sensitive_read := t\<rparr>)) \<and>
    rt_rows t = rt_rows (ru_sensitive_read init_default_rules) @ map parsed_row rows"
proof -
  let ?lines = "map (\<lambda>s. s @ [newline]) (map (setting_text ''sensitive_read'') rows)"
  have "newline \<notin> set (setting_text ''sensitive_read'' row) \<and> length (setting_text ''sensitive_read'' row) + 1 < 512"
    if "row \<in> set rows" for row
    using assms(1) that text_chars(2)
    by (cases row) (auto simp: writable_row_def setting_text_def)
  then have lines: "fgets_lines CONFIG_LINE (concat ?lines) = ?lines"
    using fgets_lines_concat [of "map (setting_text ''sensitive_read'') rows" CONFIG_LINE] by simp
  have base: "apply_profile EDR_PROFILE_BASELINE init_default_rules = (True, init_default_rules)"
    by (simp add: apply_profile_def init_default_rules_def)
  have select: "select_profile_from_file err True path (concat ?lines) (fresh_loader init_default_rules) =
      (True, fresh_loader init_default_rules)"
    unfolding select_profile_from_file_def lines no_profile_lines [OF assms(1)]
    by (simp add: fresh_loader_def base set_rules_def)
  have room: "length (rt_rows (ru_sensitive_read (ld_rules (fresh_loader init_default_rules)))) + length rows \<le> MAX_RULES"
    using assms(2) by (simp add: fresh_loader_def init_default_tables default_rows_def)
  have wf: "rules_wf (ld_rules (fresh_loader init_default_rules))"
    by (simp add: fresh_loader_def init_default_rules_wf)
  obtain t where t: "load_loop path 0 ?lines (fresh_loader init_default_rules) =
      fresh_loader (init_default_rules\<lparr>ru_sensitive_read := t\<rparr>)"
    "rt_rows t = rt_rows (ru_sensitive_read init_default_rules) @ map parsed_row rows"
    using load_rows [OF wf assms(1) room, of path 0] by (auto simp: set_rules_def fresh_loader_def)
  have none: "vt_rows (ru_disabled_rule_ids init_default_rules) = []" "override_ids init_default_rules = []"
    by (simp_all add: init_default_fields override_ids_def)
  have "validate_rule_id_controls path (fresh_loader (init_default_rules\<lparr>ru_sensitive_read := t\<rparr>)) =
      (True, fresh_loader (init_default_rules\<lparr>ru_sensitive_read := t\<rparr>))"
    using none by (simp add: validate_rule_id_controls_def fresh_loader_def override_ids_def [of "ru_sensitive_read_update _ _"]
        override_ids_def [of init_default_rules, symmetric] Let_def)
  then have "load_rules_file os err True path req (fresh_loader init_default_rules) =
      (True, fresh_loader (init_default_rules\<lparr>ru_sensitive_read := t\<rparr>))"
    unfolding load_rules_file_def assms(3) option.case select prod.case lines Let_def
    using t(1) by (simp add: fresh_loader_def)
  then show ?thesis using t(2) by blast
qed

theorem config_file_roundtrip_witness:
  "\<exists>l. load_rules_file (sample_os\<lparr>os_file := (\<lambda>_. Some (''sensitive_read=/srv/keys,crit,file.keys'' @ [newline]))\<rparr>)
     [] True ''rules.conf'' True (fresh_loader init_default_rules) = (True, l) \<and>
     last (rt_rows (ru_sensitive_read (ld_rules l))) = (''/srv/keys'', EDR_SEV_CRITICAL, ''file.keys'')"
proof -
  let ?rows = "[(''/srv/keys'', ''crit'', ''file.keys'')]"
  have "trim ''/srv/keys'' = ''/srv/keys''" by (rule trim_id) (simp_all add: is_blank_def)
  then have w: "\<forall>row \<in> set ?rows. writable_row ''sensitive_read'' row"
    by (simp add: writable_row_def setting_text_def parse_severity_def valid_rule_id_def rule_id_char_def MAX_RULE_ID_def)
  have f: "os_file (sample_os\<lparr>os_file := (\<lambda>_. Some (''sensitive_read=/srv/keys,crit,file.keys'' @ [newline]))\<rparr>)
      ''rules.conf'' = Some (concat (map (\<lambda>s. s @ [newline]) (map (setting_text ''sensitive_read'') ?rows)))"
    by (simp add: setting_text_def)
  have n: "length default_read_paths + length ?rows \<le> MAX_RULES"
    by (simp add: default_read_paths_def MAX_RULES_def)
  obtain t where t: "load_rules_file (sample_os\<lparr>os_file := (\<lambda>_. Some (''sensitive_read=/srv/keys,crit,file.keys'' @ [newline]))\<rparr>)
      [] True ''rules.conf'' True (fresh_loader init_default_rules) =
      (True, fresh_loader (init_default_rules\<lparr>ru_sensitive_read := t\<rparr>))"
    "rt_rows t = rt_rows (ru_sensitive_read init_default_rules) @ map parsed_row ?rows"
    using config_file_roundtrip [OF w n f, of "[]" True] by blast
  then show ?thesis
    by (simp add: fresh_loader_def parsed_row_def parse_severity_def)
qed

end
