(* ===== verification/Daemon.thy ===== *)
theory Daemon
  imports Scenarios Config
begin

text \<open>
  The life of the daemon (\<open>main\<close>, \<open>attach_tracepoint\<close> and \<open>sig_handler\<close> of
  \<open>dev/host/asic_main.c\<close>): options, configuration, the sensor and its resources, the poll loop, the
  signal that stops it, and the way out.  The stretches between two points where the world can act
  are functions; a step relation puts them together with the records the ring buffer delivers and
  the signal.

  libbpf is not code of this repository: whether its calls succeed is the parameter \<open>sensor_api\<close>.
\<close>

record sensor_api =
  api_fopen :: "string \<Rightarrow> bool"
  api_open :: "string \<Rightarrow> bool"
  api_load :: bool
  api_program :: "string \<Rightarrow> bool"
  api_attach :: "string \<Rightarrow> string \<Rightarrow> string \<Rightarrow> bool"
  api_map :: bool
  api_ring :: bool

section \<open>State\<close>

text \<open>\<open>Exited\<close> with the status \<open>main\<close> returns.\<close>

datatype phase = Starting | Configuring | Installing | Polling | Exited nat

text \<open>What libbpf handed out and wants back.\<close>

datatype sensor_resource = Bpf_Object | Link nat | Ring

text \<open>
  \<open>dm_streams\<close> are the JSONL streams opened and not closed, \<open>opts.jsonl\<close> is the last of them.
  \<open>dm_stderr\<close> has one element per \<open>fprintf(stderr, ...)\<close>.  \<open>dm_delivered\<close> is a ghost: the records
  delivered so far.
\<close>

record daemon =
  dm_phase :: phase
  dm_env :: agent_env
  dm_agent :: agent
  dm_stderr :: "string list"
  dm_streams :: "string list"
  dm_sensor :: "sensor_resource list"
  dm_stop :: bool
  dm_delivered :: "delivery list"

definition DEFAULT_CONFIG_PATH :: string where
  "DEFAULT_CONFIG_PATH = ''/etc/asic-edr/rules.conf''"

definition default_options :: edr_options where
  "default_options = \<lparr>op_config_path = DEFAULT_CONFIG_PATH, op_bpf_path = ''asic_sensor.bpf.o'',
     op_jsonl = False, op_console = True, op_all_events = False, op_check_config = False\<rparr>"

definition zero_metadata :: agent_metadata where
  "zero_metadata = \<lparr>am_schema_version = [], am_agent_version = [], am_hostname = [], am_boot_id = [],
     am_agent_id = [], am_config_hash = []\<rparr>"

definition boot :: daemon where
  "boot = \<lparr>dm_phase = Starting,
     dm_env = \<lparr>en_rules = zero_rules, en_metadata = zero_metadata, en_opts = default_options\<rparr>,
     dm_agent = init_agent, dm_stderr = [], dm_streams = [], dm_sensor = [], dm_stop = False,
     dm_delivered = []\<rparr>"

definition quit :: "nat \<Rightarrow> daemon \<Rightarrow> daemon" where
  "quit c d = d\<lparr>dm_phase := Exited c\<rparr>"

definition warn :: "string \<Rightarrow> daemon \<Rightarrow> daemon" where
  "warn msg d = d\<lparr>dm_stderr := dm_stderr d @ [msg]\<rparr>"

definition say :: "string \<Rightarrow> daemon \<Rightarrow> daemon" where
  "say s d = d\<lparr>dm_agent := (dm_agent d)\<lparr>ag_stdout := ag_stdout (dm_agent d) @ s\<rparr>\<rparr>"

definition set_opts :: "edr_options \<Rightarrow> daemon \<Rightarrow> daemon" where
  "set_opts opts d = d\<lparr>dm_env := (dm_env d)\<lparr>en_opts := opts\<rparr>\<rparr>"

abbreviation dm_opts :: "daemon \<Rightarrow> edr_options" where
  "dm_opts d \<equiv> en_opts (dm_env d)"

text \<open>\<open>if (opts.jsonl) fclose(opts.jsonl)\<close>.\<close>

definition close_jsonl :: "daemon \<Rightarrow> daemon" where
  "close_jsonl d = (if op_jsonl (dm_opts d) then d\<lparr>dm_streams := butlast (dm_streams d)\<rparr> else d)"

section \<open>Options\<close>

definition usage :: "string \<Rightarrow> string" where
  "usage prog = ''usage: '' @ prog @
     '' [-c rules.conf] [-o events.jsonl] [--quiet] [--all-events] [--check-config] [--bpf path]'' @ [newline]"

text \<open>
  One turn of the loop over \<open>argv\<close>: how many further arguments it uses, and the state it goes on
  with, or the state in which it returns.  A stream that cannot be opened leaves \<open>opts.jsonl\<close> null.
\<close>

datatype arg_step = Next nat daemon | Return daemon

definition parse_arg :: "sensor_api \<Rightarrow> string \<Rightarrow> string \<Rightarrow> string \<Rightarrow> string list \<Rightarrow> daemon \<Rightarrow> arg_step" where
  "parse_arg api prog errno_text a rest d =
     (let opts = dm_opts d in
      if a = ''-o'' \<and> rest \<noteq> [] then
        (if api_fopen api (hd rest)
         then Next 1 (set_opts (opts\<lparr>op_jsonl := True\<rparr>) (d\<lparr>dm_streams := dm_streams d @ [hd rest]\<rparr>))
         else Return (quit 1 (warn (''failed to open JSONL output '' @ hd rest @ '': '' @ errno_text @ [newline])
                (set_opts (opts\<lparr>op_jsonl := False\<rparr>) d))))
      else if a = ''-q'' \<or> a = ''--quiet'' then Next 0 (set_opts (opts\<lparr>op_console := False\<rparr>) d)
      else if a = ''--all-events'' then Next 0 (set_opts (opts\<lparr>op_all_events := True\<rparr>) d)
      else if a = ''--check-config'' then Next 0 (set_opts (opts\<lparr>op_check_config := True\<rparr>) d)
      else if a = ''-c'' \<and> rest \<noteq> [] then Next 1 (set_opts (opts\<lparr>op_config_path := hd rest\<rparr>) d)
      else if a = ''--bpf'' \<and> rest \<noteq> [] then Next 1 (set_opts (opts\<lparr>op_bpf_path := hd rest\<rparr>) d)
      else if a = ''-h'' \<or> a = ''--help'' then Return (quit 0 (say (usage prog) d))
      else Return (quit 1 (warn (usage prog) d)))"

fun parse_args :: "sensor_api \<Rightarrow> string \<Rightarrow> string \<Rightarrow> string list \<Rightarrow> daemon \<Rightarrow> daemon" where
  "parse_args api prog errno_text [] d = d\<lparr>dm_phase := Configuring\<rparr>"
| "parse_args api prog errno_text (a # rest) d =
     (case parse_arg api prog errno_text a rest d of
        Next n d \<Rightarrow> parse_args api prog errno_text (drop n rest) d
      | Return d \<Rightarrow> d)"

section \<open>Configuration\<close>

definition configure :: "os_view \<Rightarrow> string \<Rightarrow> bool \<Rightarrow> daemon \<Rightarrow> daemon" where
  "configure os errno_text rewinds d =
     (let opts = dm_opts d in
      case load_rules_file os errno_text rewinds (op_config_path opts) (op_check_config opts)
             (fresh_loader init_default_rules) of
        (ok, l) \<Rightarrow>
          (let d = d\<lparr>dm_env := (dm_env d)\<lparr>en_rules := ld_rules l\<rparr>, dm_stderr := dm_stderr d @ ld_stderr l\<rparr> in
           if \<not> ok then quit 1 (close_jsonl d)
           else
             (let d = d\<lparr>dm_env := (dm_env d)\<lparr>en_metadata := init_agent_metadata os (Some (op_config_path opts))\<rparr>\<rparr>
              in if op_check_config opts
                 then (let d = (if op_console opts
                                then say (write_policy_summary_console (current_policy_summary (en_rules (dm_env d)))
                                            ''config ok: '') d
                                else d)
                       in quit 0 (close_jsonl d))
                 else d\<lparr>dm_phase := Installing\<rparr>)))"

section \<open>The sensor\<close>

definition acquire :: "sensor_resource \<Rightarrow> daemon \<Rightarrow> daemon" where
  "acquire x d = d\<lparr>dm_sensor := dm_sensor d @ [x]\<rparr>"

definition release :: "sensor_resource \<Rightarrow> daemon \<Rightarrow> daemon" where
  "release x d = d\<lparr>dm_sensor := remove1 x (dm_sensor d)\<rparr>"

text \<open>\<open>attach_tracepoint\<close>, storing the link in \<open>links[i]\<close> if there is one.\<close>

definition attach_tracepoint :: "sensor_api \<Rightarrow> string \<Rightarrow> string \<Rightarrow> string \<Rightarrow> nat \<Rightarrow> daemon \<Rightarrow> daemon" where
  "attach_tracepoint api prog_name category nm i d =
     (if \<not> api_program api prog_name then warn (''missing BPF program: '' @ prog_name @ [newline]) d
      else if \<not> api_attach api prog_name category nm
      then warn (''failed to attach '' @ category @ '':'' @ nm @ [newline]) d
      else acquire (Link i) d)"

definition tracepoints :: "(string \<times> string) list" where
  "tracepoints = [(''trace_execve'', ''sys_enter_execve''), (''trace_mprotect'', ''sys_enter_mprotect''),
     (''trace_mmap'', ''sys_enter_mmap''), (''trace_openat'', ''sys_enter_openat''),
     (''trace_connect'', ''sys_enter_connect'')]"

definition attach_all :: "sensor_api \<Rightarrow> daemon \<Rightarrow> daemon" where
  "attach_all api d =
     fold (\<lambda>(i, (prog_name, nm)). attach_tracepoint api prog_name ''syscalls'' nm i)
       (enumerate 0 tracepoints) d"

text \<open>\<open>links[i]\<close> is not null.\<close>

definition linked :: "daemon \<Rightarrow> nat \<Rightarrow> bool" where
  "linked d i \<longleftrightarrow> Link i \<in> set (dm_sensor d)"

definition destroy_links :: "daemon \<Rightarrow> daemon" where
  "destroy_links d = fold (\<lambda>i d. if linked d i then release (Link i) d else d) [0..<5] d"

definition announce :: "daemon \<Rightarrow> daemon" where
  "announce d =
     (let s = current_policy_summary (en_rules (dm_env d));
          d = (if op_console (dm_opts d)
               then say (''--- ASIC-SOC EDR '' @ ASIC_EDR_VERSION @ '' online ---'' @ [newline] @
                      write_policy_summary_console s ''policy: '') d
               else d)
      in if op_jsonl (dm_opts d)
         then d\<lparr>dm_agent := (dm_agent d)\<lparr>ag_jsonl := ag_jsonl (dm_agent d) @
                  write_policy_summary_jsonl (en_metadata (dm_env d)) s\<rparr>\<rparr>
         else d)"

definition install_sensor :: "sensor_api \<Rightarrow> daemon \<Rightarrow> daemon" where
  "install_sensor api d =
     (if \<not> api_open api (op_bpf_path (dm_opts d))
      then quit 1 (warn (''failed to open '' @ op_bpf_path (dm_opts d) @ [newline]) d)
      else
        (let d = acquire Bpf_Object d in
         if \<not> api_load api
         then quit 1 (release Bpf_Object (warn (''failed to load EDR sensor'' @ [newline]) d))
         else
           (let d = attach_all api d in
            if \<not> list_all (linked d) [0..<5]
            then quit 1 (release Bpf_Object (destroy_links d))
            else if \<not> api_map api
            then quit 1 (release Bpf_Object (destroy_links
                   (warn (''failed to find ring buffer map'' @ [newline]) d)))
            else if \<not> api_ring api
            then quit 1 (release Bpf_Object (destroy_links
                   (warn (''failed to create ring buffer'' @ [newline]) d)))
            else announce (acquire Ring d)\<lparr>dm_phase := Polling\<rparr>)))"

section \<open>The loop and the way out\<close>

text \<open>
  One turn of the loop: the gauges, and one \<open>ring_buffer__poll\<close> with the records it hands to
  \<open>handle_event\<close>.
\<close>

definition refresh_stats :: "sys_info option \<Rightarrow> agent \<Rightarrow> agent" where
  "refresh_stats info ag = ag\<lparr>ag_telemetry := update_telemetry_stats info (ag_telemetry ag)\<rparr>"

definition poll :: "sys_info option \<Rightarrow> delivery list \<Rightarrow> daemon \<Rightarrow> daemon" where
  "poll info ds d = d\<lparr>dm_agent := handle_events (dm_env d) ds (refresh_stats info (dm_agent d)),
     dm_delivered := dm_delivered d @ ds\<rparr>"

definition sig_handler :: "daemon \<Rightarrow> daemon" where
  "sig_handler d = d\<lparr>dm_stop := True\<rparr>"

definition shut_down :: "os_view \<Rightarrow> daemon \<Rightarrow> daemon" where
  "shut_down os d =
     (let d = d\<lparr>dm_agent := flush_dedup_cache (dm_env d) os (dm_agent d)\<rparr>;
          d = release Ring d;
          d = destroy_links d;
          d = release Bpf_Object d
      in quit 0 (close_jsonl d))"

text \<open>
  The steps.  The handlers are installed on the way from \<open>configure\<close> to the sensor; until then a
  signal ends the process.  \<open>stop\<close> is looked at only between two polls.
\<close>

inductive daemon_step :: "sensor_api \<Rightarrow> string \<Rightarrow> string list \<Rightarrow> daemon \<Rightarrow> daemon \<Rightarrow> bool"
  for api :: sensor_api and prog :: string and args :: "string list"
where
  parse: "dm_phase d = Starting \<Longrightarrow> daemon_step api prog args d (parse_args api prog err args d)"
| config: "dm_phase d = Configuring \<Longrightarrow> daemon_step api prog args d (configure os err rew d)"
| install: "dm_phase d = Installing \<Longrightarrow> daemon_step api prog args d (install_sensor api d)"
| polled: "dm_phase d = Polling \<Longrightarrow> \<not> dm_stop d \<Longrightarrow> daemon_step api prog args d (poll info ds d)"
| signal: "dm_phase d = Installing \<or> dm_phase d = Polling \<Longrightarrow> \<not> dm_stop d \<Longrightarrow>
    daemon_step api prog args d (sig_handler d)"
| finish: "dm_phase d = Polling \<Longrightarrow> dm_stop d \<Longrightarrow> daemon_step api prog args d (shut_down os d)"

inductive reachable :: "sensor_api \<Rightarrow> string \<Rightarrow> string list \<Rightarrow> daemon \<Rightarrow> bool"
  for api :: sensor_api and prog :: string and args :: "string list"
where
  start: "reachable api prog args boot"
| step: "reachable api prog args d \<Longrightarrow> daemon_step api prog args d d' \<Longrightarrow> reachable api prog args d'"

inductive_cases step_from: "daemon_step api prog args d d'"
inductive_simps boot_reachable: "reachable api prog args boot"

section \<open>What the stretches change\<close>

named_theorems daemon_simps \<open>fields after the small operations\<close>

lemma small_fields [daemon_simps]:
  "dm_phase (quit c d) = Exited c" "dm_phase (warn m d) = dm_phase d" "dm_phase (say s d) = dm_phase d"
  "dm_phase (set_opts opts d) = dm_phase d" "dm_phase (close_jsonl d) = dm_phase d"
  "dm_sensor (quit c d) = dm_sensor d" "dm_sensor (warn m d) = dm_sensor d" "dm_sensor (say s d) = dm_sensor d"
  "dm_sensor (set_opts opts d) = dm_sensor d" "dm_sensor (close_jsonl d) = dm_sensor d"
  "dm_stderr (quit c d) = dm_stderr d" "dm_stderr (warn m d) = dm_stderr d @ [m]"
  "dm_stderr (say s d) = dm_stderr d" "dm_stderr (set_opts opts d) = dm_stderr d"
  "dm_stderr (close_jsonl d) = dm_stderr d"
  "dm_delivered (quit c d) = dm_delivered d" "dm_delivered (warn m d) = dm_delivered d"
  "dm_delivered (say s d) = dm_delivered d" "dm_delivered (set_opts opts d) = dm_delivered d"
  "dm_delivered (close_jsonl d) = dm_delivered d"
  "dm_stop (quit c d) = dm_stop d" "dm_stop (warn m d) = dm_stop d" "dm_stop (say s d) = dm_stop d"
  "dm_stop (set_opts opts d) = dm_stop d" "dm_stop (close_jsonl d) = dm_stop d"
  "dm_env (quit c d) = dm_env d" "dm_env (warn m d) = dm_env d" "dm_env (say s d) = dm_env d"
  "dm_env (close_jsonl d) = dm_env d" "dm_env (set_opts opts d) = (dm_env d)\<lparr>en_opts := opts\<rparr>"
  "dm_agent (quit c d) = dm_agent d" "dm_agent (warn m d) = dm_agent d"
  "dm_agent (set_opts opts d) = dm_agent d" "dm_agent (close_jsonl d) = dm_agent d"
  "dm_agent (say s d) = (dm_agent d)\<lparr>ag_stdout := ag_stdout (dm_agent d) @ s\<rparr>"
  by (simp_all add: quit_def warn_def say_def set_opts_def close_jsonl_def)

lemma sensor_fields [daemon_simps]:
  "dm_phase (acquire x d) = dm_phase d" "dm_phase (release x d) = dm_phase d"
  "dm_sensor (acquire x d) = dm_sensor d @ [x]" "dm_sensor (release x d) = remove1 x (dm_sensor d)"
  "dm_stderr (acquire x d) = dm_stderr d" "dm_stderr (release x d) = dm_stderr d"
  "dm_delivered (acquire x d) = dm_delivered d" "dm_delivered (release x d) = dm_delivered d"
  "dm_stop (acquire x d) = dm_stop d" "dm_stop (release x d) = dm_stop d"
  "dm_env (acquire x d) = dm_env d" "dm_env (release x d) = dm_env d"
  "dm_agent (acquire x d) = dm_agent d" "dm_agent (release x d) = dm_agent d"
  by (simp_all add: acquire_def release_def)

text \<open>An agent that has seen nothing yet, whatever was printed.\<close>

definition fresh_agent :: "agent \<Rightarrow> bool" where
  "fresh_agent ag \<longleftrightarrow> dedup_wf ag \<and> (\<forall>k. reported k ag = 0 \<and> pending k ag = 0) \<and> ag_flow ag = init_flow_store"

lemma fresh_agent_printed [daemon_simps]:
  "fresh_agent (ag\<lparr>ag_stdout := s\<rparr>) = fresh_agent ag" "fresh_agent (ag\<lparr>ag_jsonl := s\<rparr>) = fresh_agent ag"
  by (simp_all add: fresh_agent_def dedup_wf_def reported_def pending_def)

lemma fresh_init: "fresh_agent init_agent"
  by (simp add: fresh_agent_def init_agent_facts)

definition untouched :: "daemon \<Rightarrow> bool" where
  "untouched d \<longleftrightarrow> dm_sensor d = [] \<and> dm_delivered d = [] \<and> fresh_agent (dm_agent d)"

text \<open>An exit with the right status: 1 exactly when something was written to \<open>stderr\<close>.\<close>

definition honest_exit :: "daemon \<Rightarrow> bool" where
  "honest_exit d \<longleftrightarrow> dm_phase d = Exited (if dm_stderr d = [] then 0 else 1)"

lemma parse_arg_outcome:
  assumes "untouched d" and "dm_stderr d = []" and "\<not> dm_stop d"
  shows "case parse_arg api prog err a rest d of
      Next n d' \<Rightarrow> untouched d' \<and> dm_stderr d' = [] \<and> \<not> dm_stop d'
    | Return d' \<Rightarrow> untouched d' \<and> \<not> dm_stop d' \<and> honest_exit d'"
proof -
  have keep: "untouched (set_opts opts d)" "dm_stderr (set_opts opts d) = []" "\<not> dm_stop (set_opts opts d)"
    "untouched (set_opts opts (d\<lparr>dm_streams := ss\<rparr>))" "dm_stderr (set_opts opts (d\<lparr>dm_streams := ss\<rparr>)) = []"
    "\<not> dm_stop (set_opts opts (d\<lparr>dm_streams := ss\<rparr>))" for opts ss
    using assms by (simp_all add: untouched_def daemon_simps)
  have out: "untouched (quit 1 (warn m d))" "honest_exit (quit 1 (warn m d))" "\<not> dm_stop (quit 1 (warn m d))"
    "untouched (quit 1 (warn m (set_opts opts d)))" "honest_exit (quit 1 (warn m (set_opts opts d)))"
    "\<not> dm_stop (quit 1 (warn m (set_opts opts d)))"
    "untouched (quit 0 (say m d))" "honest_exit (quit 0 (say m d))" "\<not> dm_stop (quit 0 (say m d))" for m opts
    using assms by (simp_all add: untouched_def honest_exit_def daemon_simps)
  show ?thesis
    unfolding parse_arg_def Let_def
    by (simp add: keep out del: One_nat_def split: if_split)
qed

lemma parse_args_outcome:
  "untouched d \<Longrightarrow> dm_stderr d = [] \<Longrightarrow> \<not> dm_stop d \<Longrightarrow>
   let d' = parse_args api prog err args d in
     untouched d' \<and> \<not> dm_stop d' \<and> (dm_phase d' = Configuring \<and> dm_stderr d' = [] \<or> honest_exit d')"
proof (induction api prog err args d rule: parse_args.induct)
  case (1 api prog err d)
  then show ?case by (simp add: untouched_def)
next
  case (2 api prog err a rest d)
  note o = parse_arg_outcome [OF "2.prems", of api prog err a rest]
  show ?case
  proof (cases "parse_arg api prog err a rest d")
    case (Next n d')
    then show ?thesis using o "2.IH" [OF Next] by simp
  next
    case (Return d')
    then show ?thesis using o by simp
  qed
qed

lemma configure_outcome:
  fixes os :: os_view and err :: string and rew :: bool
  assumes "untouched d" and "dm_stderr d = []" and "\<not> dm_stop d"
  defines "d' \<equiv> configure os err rew d"
  shows "untouched d'" and "\<not> dm_stop d'"
    and "dm_phase d' = Installing \<and> dm_stderr d' = [] \<and> \<not> op_check_config (dm_opts d') \<or> honest_exit d'"
proof -
  let ?o = "dm_opts d"
  obtain ok l where r: "load_rules_file os err rew (op_config_path ?o) (op_check_config ?o)
      (fresh_loader init_default_rules) = (ok, l)"
    by (cases "load_rules_file os err rew (op_config_path ?o) (op_check_config ?o) (fresh_loader init_default_rules)")
  have ok: "ok \<longleftrightarrow> ld_stderr l = []"
    using load_outcome(1) [OF init_default_rules_wf defaults_name_curl_wget r] .
  show "untouched d'" "\<not> dm_stop d'"
    using assms(1,3) unfolding d'_def configure_def Let_def r prod.case
    by (simp_all add: untouched_def daemon_simps)
  show "dm_phase d' = Installing \<and> dm_stderr d' = [] \<and> \<not> op_check_config (dm_opts d') \<or> honest_exit d'"
    using assms(2) ok unfolding d'_def configure_def Let_def r prod.case
    by (simp add: honest_exit_def daemon_simps)
qed

section \<open>Links\<close>

lemma attach_fields [daemon_simps]:
  "dm_phase (attach_tracepoint api p c n i d) = dm_phase d"
  "dm_delivered (attach_tracepoint api p c n i d) = dm_delivered d"
  "dm_stop (attach_tracepoint api p c n i d) = dm_stop d"
  "dm_env (attach_tracepoint api p c n i d) = dm_env d"
  "dm_agent (attach_tracepoint api p c n i d) = dm_agent d"
  by (simp_all add: attach_tracepoint_def daemon_simps)

text \<open>The tracepoints that can be attached, by their index.\<close>

definition attachable :: "sensor_api \<Rightarrow> nat \<Rightarrow> bool" where
  "attachable api i \<longleftrightarrow> (case tracepoints ! i of (p, n) \<Rightarrow> api_program api p \<and> api_attach api p ''syscalls'' n)"

lemma filter_enumerate:
  "m = n + length xs \<Longrightarrow>
   map fst (filter (\<lambda>(i, x). q x) (enumerate n xs)) = filter (\<lambda>i. q (xs ! (i - n))) [n..<m]"
proof (induction xs arbitrary: n)
  case (Cons x xs)
  have tail: "filter (\<lambda>i. q ((x # xs) ! (i - n))) [Suc n..<m] = filter (\<lambda>i. q (xs ! (i - Suc n))) [Suc n..<m]"
    by (rule filter_cong) (auto simp: Suc_diff_Suc [symmetric] Suc_le_eq)
  have "[n..<m] = n # [Suc n..<m]" by (rule upt_conv_Cons) (use Cons.prems in simp)
  then show ?case using Cons.IH [of "Suc n"] Cons.prems tail by simp
qed simp

lemma list_all_enumerate: "list_all (\<lambda>(i, x). q x) (enumerate n xs) = list_all q xs"
  by (induction xs arbitrary: n) auto

lemma attach_all_outcome:
  shows "dm_phase (attach_all api d) = dm_phase d" "dm_delivered (attach_all api d) = dm_delivered d"
    "dm_stop (attach_all api d) = dm_stop d" "dm_env (attach_all api d) = dm_env d"
    "dm_agent (attach_all api d) = dm_agent d"
    and "dm_sensor (attach_all api d) = dm_sensor d @ map Link (filter (attachable api) [0..<5])"
    and "dm_stderr (attach_all api d) = dm_stderr d \<longleftrightarrow> (\<forall>i < 5. attachable api i)"
proof -
  define step where "step = (\<lambda>(i, (p, n)). attach_tracepoint api p ''syscalls'' n i)"
  define ok where "ok = (\<lambda>(p, n). api_program api p \<and> api_attach api p ''syscalls'' n)"
  have one: "dm_phase (step (i, t) x) = dm_phase x" "dm_delivered (step (i, t) x) = dm_delivered x"
    "dm_stop (step (i, t) x) = dm_stop x" "dm_env (step (i, t) x) = dm_env x"
    "dm_agent (step (i, t) x) = dm_agent x"
    "dm_sensor (step (i, t) x) = dm_sensor x @ (if ok t then [Link i] else [])"
    "\<exists>ms. dm_stderr (step (i, t) x) = dm_stderr x @ ms \<and> (ms = [] \<longleftrightarrow> ok t)" for i t x
    by (cases t, simp add: step_def ok_def attach_tracepoint_def daemon_simps)+
  have gen: "dm_phase (fold step its x) = dm_phase x \<and> dm_delivered (fold step its x) = dm_delivered x \<and>
      dm_stop (fold step its x) = dm_stop x \<and> dm_env (fold step its x) = dm_env x \<and>
      dm_agent (fold step its x) = dm_agent x \<and>
      dm_sensor (fold step its x) = dm_sensor x @ map Link (map fst (filter (\<lambda>(i, t). ok t) its)) \<and>
      (\<exists>ms. dm_stderr (fold step its x) = dm_stderr x @ ms \<and> (ms = [] \<longleftrightarrow> list_all (\<lambda>(i, t). ok t) its))"
    for its x
  proof (induction its arbitrary: x)
    case (Cons it its)
    obtain i t where it: "it = (i, t)" by (cases it)
    obtain ms where "dm_stderr (step it x) = dm_stderr x @ ms" "ms = [] \<longleftrightarrow> ok t"
      using one(7) [of i t x] it by auto
    then show ?case using Cons.IH [of "step it x"] one(1-6) [of i t x] by (auto simp: it)
  qed simp
  have all: "attach_all api d = fold step (enumerate 0 tracepoints) d" by (simp add: attach_all_def step_def)
  have len: "length tracepoints = 5" by (simp add: tracepoints_def)
  have at: "attachable api = (\<lambda>i. ok (tracepoints ! i))"
    by (simp add: fun_eq_iff attachable_def ok_def)
  show "dm_phase (attach_all api d) = dm_phase d" "dm_delivered (attach_all api d) = dm_delivered d"
    "dm_stop (attach_all api d) = dm_stop d" "dm_env (attach_all api d) = dm_env d"
    "dm_agent (attach_all api d) = dm_agent d"
    using gen [of "enumerate 0 tracepoints" d] by (simp_all only: all)
  show "dm_sensor (attach_all api d) = dm_sensor d @ map Link (filter (attachable api) [0..<5])"
    using gen [of "enumerate 0 tracepoints" d] filter_enumerate [of 5 0 tracepoints ok]
    by (simp add: all len at)
  have "(\<forall>i < 5. attachable api i) \<longleftrightarrow> list_all (\<lambda>(i, t). ok t) (enumerate 0 tracepoints)"
    using list_all_enumerate [of ok 0 tracepoints] list_all_length [of ok tracepoints] by (simp add: len at)
  then show "dm_stderr (attach_all api d) = dm_stderr d \<longleftrightarrow> (\<forall>i < 5. attachable api i)"
    using gen [of "enumerate 0 tracepoints" d] by (auto simp: all)
qed

lemma destroy_links_outcome:
  shows "dm_phase (destroy_links d) = dm_phase d" "dm_delivered (destroy_links d) = dm_delivered d"
    "dm_stop (destroy_links d) = dm_stop d" "dm_env (destroy_links d) = dm_env d"
    "dm_agent (destroy_links d) = dm_agent d" "dm_stderr (destroy_links d) = dm_stderr d"
    and "distinct (dm_sensor d) \<Longrightarrow>
      dm_sensor (destroy_links d) = filter (\<lambda>x. x \<notin> Link ` {0..<5}) (dm_sensor d)"
proof -
  define step where "step = (\<lambda>i d. if linked d i then release (Link i) d else d)"
  have s: "dm_phase (step i x) = dm_phase x" "dm_delivered (step i x) = dm_delivered x"
    "dm_stop (step i x) = dm_stop x" "dm_env (step i x) = dm_env x" "dm_agent (step i x) = dm_agent x"
    "dm_stderr (step i x) = dm_stderr x" "dm_sensor (step i x) = remove1 (Link i) (dm_sensor x)" for i x
    by (simp_all add: step_def daemon_simps linked_def remove1_idem)
  have d: "destroy_links d = fold step [0..<5] d" by (simp add: destroy_links_def step_def)
  have f: "dm_phase (fold step is x) = dm_phase x \<and> dm_delivered (fold step is x) = dm_delivered x \<and>
    dm_stop (fold step is x) = dm_stop x \<and> dm_env (fold step is x) = dm_env x \<and>
    dm_agent (fold step is x) = dm_agent x \<and> dm_stderr (fold step is x) = dm_stderr x \<and>
    (distinct (dm_sensor x) \<longrightarrow> dm_sensor (fold step is x) = filter (\<lambda>y. y \<notin> Link ` set is) (dm_sensor x))"
    for "is" x
  proof (induction "is" arbitrary: x)
    case (Cons i "is")
    show ?case using Cons [of "step i x"]
      by (auto simp: s distinct_remove1_removeAll removeAll_filter_not_eq intro!: filter_cong)
  qed simp
  show "dm_phase (destroy_links d) = dm_phase d" "dm_delivered (destroy_links d) = dm_delivered d"
    "dm_stop (destroy_links d) = dm_stop d" "dm_env (destroy_links d) = dm_env d"
    "dm_agent (destroy_links d) = dm_agent d" "dm_stderr (destroy_links d) = dm_stderr d"
    "distinct (dm_sensor d) \<Longrightarrow>
      dm_sensor (destroy_links d) = filter (\<lambda>x. x \<notin> Link ` {0..<5}) (dm_sensor d)"
    using f [of "[0..<5]" d] by (simp_all add: d)
qed

text \<open>What is held while the daemon polls.\<close>

definition full_sensor :: "sensor_resource list" where
  "full_sensor = [Bpf_Object, Link 0, Link 1, Link 2, Link 3, Link 4, Ring]"

lemma no_links: "filter (\<lambda>x. x \<notin> Link ` {0..<5}) (map Link (filter p [0..<5])) = []"
  by (auto simp: filter_empty_conv)

lemma announce_fields [daemon_simps]:
  "dm_stderr (announce d) = dm_stderr d" "dm_sensor (announce d) = dm_sensor d"
  "dm_delivered (announce d) = dm_delivered d" "dm_stop (announce d) = dm_stop d"
  "dm_env (announce d) = dm_env d" "fresh_agent (dm_agent (announce d)) = fresh_agent (dm_agent d)"
  by (simp_all add: announce_def Let_def daemon_simps)

text \<open>Giving back the links that were made, and the object.\<close>

lemma release_all:
  assumes "dm_sensor d = Bpf_Object # map Link (filter p [0..<5])"
  shows "dm_sensor (release Bpf_Object (destroy_links d)) = []"
proof -
  have "distinct (dm_sensor d)" using assms by (auto simp: distinct_map inj_on_def)
  then show ?thesis
    using destroy_links_outcome(7) [of d] no_links [of p] assms by (auto simp: daemon_simps)
qed

lemma linked_all: "dm_sensor d = Bpf_Object # map Link (filter p [0..<5]) \<Longrightarrow> linked d i \<longleftrightarrow> i < 5 \<and> p i"
  by (auto simp: linked_def)

lemma install_outcome:
  fixes api :: sensor_api
  assumes "untouched d" and "dm_stderr d = []"
  defines "d' \<equiv> install_sensor api d"
  shows "dm_stop d' = dm_stop d" and "dm_env d' = dm_env d" and "fresh_agent (dm_agent d')"
    and "dm_delivered d' = []"
    and "dm_phase d' = Polling \<and> dm_stderr d' = [] \<and> dm_sensor d' = full_sensor \<or>
      honest_exit d' \<and> dm_phase d' = Exited 1 \<and> dm_sensor d' = []"
proof -
  define d1 where "d1 = acquire Bpf_Object d"
  define d2 where "d2 = attach_all api d1"
  note a = attach_all_outcome [of api d1, folded d2_def]
  have d1: "dm_sensor d1 = [Bpf_Object]" "dm_stderr d1 = []" "fresh_agent (dm_agent d1)" "dm_delivered d1 = []"
    "dm_stop d1 = dm_stop d" "dm_env d1 = dm_env d"
    using assms(1,2) by (simp_all add: d1_def untouched_def daemon_simps)
  have d2: "dm_sensor d2 = Bpf_Object # map Link (filter (attachable api) [0..<5])"
    using a(6) d1(1) by simp
  have w: "dm_sensor (warn m d2) = Bpf_Object # map Link (filter (attachable api) [0..<5])" for m
    by (simp add: d2 daemon_simps)
  have all: "list_all (linked d2) [0..<5] \<longleftrightarrow> (\<forall>i < 5. attachable api i)"
    using linked_all [OF d2] by (auto simp: list_all_iff)
  have full: "map Link (filter (attachable api) [0..<5]) = [Link 0, Link 1, Link 2, Link 3, Link 4]"
    if "\<forall>i < 5. attachable api i"
    using that by (simp add: upt_rec)
  have body: "d' = (if \<not> api_open api (op_bpf_path (dm_opts d))
      then quit 1 (warn (''failed to open '' @ op_bpf_path (dm_opts d) @ [newline]) d)
      else if \<not> api_load api
      then quit 1 (release Bpf_Object (warn (''failed to load EDR sensor'' @ [newline]) d1))
      else if \<not> list_all (linked d2) [0..<5] then quit 1 (release Bpf_Object (destroy_links d2))
      else if \<not> api_map api
      then quit 1 (release Bpf_Object (destroy_links (warn (''failed to find ring buffer map'' @ [newline]) d2)))
      else if \<not> api_ring api
      then quit 1 (release Bpf_Object (destroy_links (warn (''failed to create ring buffer'' @ [newline]) d2)))
      else announce (acquire Ring d2)\<lparr>dm_phase := Polling\<rparr>)"
    unfolding d'_def install_sensor_def Let_def d2_def d1_def ..
  note simps = daemon_simps destroy_links_outcome(1-6) a(1-5) d1
  show "dm_stop d' = dm_stop d" "dm_env d' = dm_env d" "dm_delivered d' = []"
    using assms(1) by (simp_all add: body simps untouched_def)
  have "fresh_agent (dm_agent d)" using assms(1) by (simp add: untouched_def)
  then show "fresh_agent (dm_agent d')" by (simp add: body simps)
  have err: "dm_stderr d2 = [] \<longleftrightarrow> (\<forall>i < 5. attachable api i)" using a(7) d1(2) by simp
  show "dm_phase d' = Polling \<and> dm_stderr d' = [] \<and> dm_sensor d' = full_sensor \<or>
      honest_exit d' \<and> dm_phase d' = Exited 1 \<and> dm_sensor d' = []"
    using assms(1,2) release_all [OF d2] release_all [OF w] all err full
    by (simp add: body simps d2 honest_exit_def full_sensor_def untouched_def del: One_nat_def)
qed

lemma shut_down_outcome:
  assumes "dm_sensor d = full_sensor"
  shows "dm_phase (shut_down os d) = Exited 0" and "dm_sensor (shut_down os d) = []"
    and "dm_stderr (shut_down os d) = dm_stderr d" and "dm_stop (shut_down os d) = dm_stop d"
    and "dm_env (shut_down os d) = dm_env d" and "dm_delivered (shut_down os d) = dm_delivered d"
    and "dm_agent (shut_down os d) = flush_dedup_cache (dm_env d) os (dm_agent d)"
proof -
  have five: "full_sensor = Bpf_Object # map Link (filter (\<lambda>i. True) [0..<5]) @ [Ring]"
    by (simp add: full_sensor_def upt_rec)
  let ?d = "release Ring (d\<lparr>dm_agent := flush_dedup_cache (dm_env d) os (dm_agent d)\<rparr>)"
  have "dm_sensor ?d = Bpf_Object # map Link (filter (\<lambda>i. True) [0..<5])"
    using assms by (auto simp: daemon_simps five remove1_append)
  note r = release_all [OF this]
  show "dm_sensor (shut_down os d) = []"
    using r by (simp add: shut_down_def Let_def daemon_simps)
  show "dm_phase (shut_down os d) = Exited 0" "dm_stderr (shut_down os d) = dm_stderr d"
    "dm_stop (shut_down os d) = dm_stop d" "dm_env (shut_down os d) = dm_env d"
    "dm_delivered (shut_down os d) = dm_delivered d"
    "dm_agent (shut_down os d) = flush_dedup_cache (dm_env d) os (dm_agent d)"
    by (simp_all add: shut_down_def Let_def daemon_simps destroy_links_outcome(1-6))
qed

section \<open>The gauges do not matter\<close>

text \<open>
  Between two polls the gauges change, and with them the telemetry only: the agents before and after
  agree on everything else, and go on to do so.
\<close>

definition same_books :: "agent \<Rightarrow> agent \<Rightarrow> bool" where
  "same_books ag ag' \<longleftrightarrow> ag_flow ag' = ag_flow ag \<and> ag_dedup ag' = ag_dedup ag \<and>
     ag_dedup_cursor ag' = ag_dedup_cursor ag \<and> ag_stdout ag' = ag_stdout ag \<and>
     ag_jsonl ag' = ag_jsonl ag \<and> ag_log ag' = ag_log ag"

named_theorems same_books_intros \<open>operations that respect \<open>same_books\<close>\<close>

lemma same_books_refl [same_books_intros]: "same_books ag ag"
  by (simp add: same_books_def)

lemma same_books_refresh [same_books_intros]: "same_books ag (refresh_stats info ag)"
  by (simp add: same_books_def refresh_stats_def)

lemma same_books_trans: "same_books a b \<Longrightarrow> same_books b c \<Longrightarrow> same_books a c"
  by (auto simp: same_books_def)

lemma same_books_fields:
  assumes "same_books ag ag'"
  shows "ag_dedup ag' = ag_dedup ag" "ag_flow ag' = ag_flow ag" "ag_log ag' = ag_log ag"
    "ag_dedup_cursor ag' = ag_dedup_cursor ag" "reported k ag' = reported k ag"
  using assms by (simp_all add: same_books_def reported_def)

lemma same_books_emit [same_books_intros]:
  "same_books ag ag' \<Longrightarrow> same_books (emit_finding en os e proc f n ag) (emit_finding en os e proc f n ag')"
  by (auto simp: same_books_def emit_finding_def Let_def)

lemma same_books_clear [same_books_intros]:
  "same_books ag ag' \<Longrightarrow> same_books (clear_dedup_entry i ag) (clear_dedup_entry i ag')"
  by (auto simp: same_books_def clear_dedup_entry_def)

lemma same_books_emit_entry [same_books_intros]:
  assumes "same_books ag ag'"
  shows "same_books (emit_dedup_entry en os i ag) (emit_dedup_entry en os i ag')"
  using same_books_fields(1) [OF assms] same_books_intros assms
  by (simp add: emit_dedup_entry_def Let_def)

lemma same_books_dedup [same_books_intros]:
  "same_books ag ag' \<Longrightarrow> same_books (ag\<lparr>ag_dedup := ds\<rparr>) (ag'\<lparr>ag_dedup := ds\<rparr>)"
  "same_books ag ag' \<Longrightarrow> same_books (ag\<lparr>ag_dedup_cursor := c\<rparr>) (ag'\<lparr>ag_dedup_cursor := c\<rparr>)"
  "same_books ag ag' \<Longrightarrow> same_books (ag\<lparr>ag_flow := fl, ag_telemetry := g\<rparr>) (ag'\<lparr>ag_flow := fl, ag_telemetry := g'\<rparr>)"
  by (auto simp: same_books_def)

lemma same_books_suppress:
  assumes "same_books ag ag'"
  shows "fst (suppress_duplicate en os e f ag') = fst (suppress_duplicate en os e f ag) \<and>
    same_books (snd (suppress_duplicate en os e f ag)) (snd (suppress_duplicate en os e f ag'))"
proof -
  note fields = same_books_fields(1,4) [OF assms]
  show ?thesis
  proof (cases "first_index (\<lambda>entry. same_dedup_key entry e f) (ag_dedup ag)")
    case None
    define a a' where "a = ag\<lparr>ag_dedup_cursor := ag_dedup_cursor ag + 1\<rparr>"
      and "a' = ag'\<lparr>ag_dedup_cursor := ag_dedup_cursor ag + 1\<rparr>"
    define i where "i = unat (ag_dedup_cursor ag mod of_nat DEDUP_ENTRIES)"
    have a: "same_books a a'" unfolding a_def a'_def using assms by (intro same_books_intros)
    let ?b = "de_active (ag_dedup ag ! i) \<and> 0 < de_repeat_count (ag_dedup ag ! i)"
    have b: "same_books (if ?b then emit_dedup_entry en os i a else a) (if ?b then emit_dedup_entry en os i a' else a')"
      using a same_books_emit_entry [OF a] by simp
    have s: "suppress_duplicate en os e f ag = (False, (if ?b then emit_dedup_entry en os i a else a)\<lparr>ag_dedup :=
        (ag_dedup (if ?b then emit_dedup_entry en os i a else a))[i := fill_entry e f]\<rparr>)"
      using None by (simp add: suppress_duplicate_def Let_def a_def i_def)
    have s': "suppress_duplicate en os e f ag' = (False, (if ?b then emit_dedup_entry en os i a' else a')\<lparr>ag_dedup :=
        (ag_dedup (if ?b then emit_dedup_entry en os i a' else a'))[i := fill_entry e f]\<rparr>)"
      using None by (simp add: suppress_duplicate_def Let_def a'_def i_def fields)
    show ?thesis unfolding s s' fst_conv snd_conv same_books_fields(1) [OF b]
      using same_books_dedup(1) [OF b] by simp
  qed (use assms in \<open>simp add: suppress_duplicate_def Let_def fields same_books_intros\<close>)
qed

lemma same_books_handle [same_books_intros]:
  assumes "same_books ag ag'"
  shows "same_books (handle_event en os e sz ag) (handle_event en os e sz ag')"
proof (cases "sz < sizeof_edr_event")
  case False
  obtain f enr proc flow where a: "assess en os e (ag_flow ag) = (f, enr, proc, flow)"
    by (cases "assess en os e (ag_flow ag)")
  then have a': "assess en os e (ag_flow ag') = (f, enr, proc, flow)"
    by (simp add: same_books_fields(2) [OF assms])
  define x x' where "x = ag\<lparr>ag_flow := flow, ag_telemetry := bump_counters e f (ag_telemetry ag)\<rparr>"
    and "x' = ag'\<lparr>ag_flow := flow, ag_telemetry := bump_counters e f (ag_telemetry ag')\<rparr>"
  have x: "same_books x x'" unfolding x_def x'_def using assms by (intro same_books_intros)
  obtain b y y' where y: "suppress_duplicate en os e f x = (b, y)" "suppress_duplicate en os e f x' = (b, y')"
    "same_books y y'"
    using same_books_suppress [OF x, of en os e f]
    by (cases "suppress_duplicate en os e f x", cases "suppress_duplicate en os e f x'") simp
  show ?thesis
    unfolding handle_event_step [OF False a] handle_event_step [OF False a'] x_def [symmetric] x'_def [symmetric]
    using x y by (simp add: Let_def same_books_intros)
qed (use assms in \<open>simp add: handle_event_def\<close>)

lemma same_books_run [same_books_intros]:
  "same_books ag ag' \<Longrightarrow> same_books (handle_events en ds ag) (handle_events en ds ag')"
  by (induction ds arbitrary: ag ag') (auto simp: same_books_handle)

lemma same_books_flush [same_books_intros]:
  "same_books ag ag' \<Longrightarrow> same_books (flush_dedup_cache en os ag) (flush_dedup_cache en os ag')"
proof -
  have "same_books ag ag' \<Longrightarrow> same_books (fold (emit_dedup_entry en os) is ag) (fold (emit_dedup_entry en os) is ag')"
    for "is"
    by (induction "is" arbitrary: ag ag') (auto simp: same_books_emit_entry)
  then show "same_books ag ag' \<Longrightarrow> same_books (flush_dedup_cache en os ag) (flush_dedup_cache en os ag')"
    by (simp add: flush_dedup_cache_def)
qed

section \<open>The invariant\<close>

text \<open>What was reported is what a flush would report after the delivered records.\<close>

definition settled_run :: "daemon \<Rightarrow> bool" where
  "settled_run d \<longleftrightarrow> (\<exists>ag os. fresh_agent ag \<and> (\<forall>k. reported k (dm_agent d) =
     reported k (flush_dedup_cache (dm_env d) os (handle_events (dm_env d) (dm_delivered d) ag))))"

definition daemon_inv :: "daemon \<Rightarrow> bool" where
  "daemon_inv d \<longleftrightarrow> (case dm_phase d of
     Starting \<Rightarrow> d = boot
   | Configuring \<Rightarrow> untouched d \<and> dm_stderr d = [] \<and> \<not> dm_stop d
   | Installing \<Rightarrow> untouched d \<and> dm_stderr d = [] \<and> \<not> op_check_config (dm_opts d)
   | Polling \<Rightarrow> dm_stderr d = [] \<and> dm_sensor d = full_sensor \<and> \<not> op_check_config (dm_opts d) \<and>
       (\<exists>ag. fresh_agent ag \<and> same_books (handle_events (dm_env d) (dm_delivered d) ag) (dm_agent d))
   | Exited c \<Rightarrow> honest_exit d \<and> dm_sensor d = [] \<and> settled_run d \<and>
       (op_check_config (dm_opts d) \<longrightarrow> dm_delivered d = []))"

lemma fresh_settled: "fresh_agent ag \<Longrightarrow> reported k (flush_dedup_cache en os ag) = 0"
  by (simp add: fresh_agent_def flush_ledger)

lemma untouched_settled: "untouched d \<Longrightarrow> settled_run d"
  unfolding settled_run_def untouched_def
  by (intro exI [of _ "dm_agent d"]) (auto simp: fresh_settled fresh_agent_def)

lemma inv_exit: "honest_exit d \<Longrightarrow> untouched d \<Longrightarrow> daemon_inv d"
  using untouched_settled [of d] by (simp add: daemon_inv_def honest_exit_def untouched_def)

lemma install_inv:
  assumes "untouched d" and "dm_stderr d = []" and "\<not> op_check_config (dm_opts d)"
  shows "daemon_inv (install_sensor api d)"
proof -
  define d' where "d' = install_sensor api d"
  note o = install_outcome [OF assms(1,2), of api, folded d'_def]
  have "daemon_inv d'"
  proof (cases "dm_phase d' = Polling")
    case True
    then have "dm_stderr d' = []" "dm_sensor d' = full_sensor" using o(5) by auto
    moreover have "\<exists>ag. fresh_agent ag \<and> same_books (handle_events (dm_env d') (dm_delivered d') ag) (dm_agent d')"
      using o(3,4) by (intro exI [of _ "dm_agent d'"]) (simp add: same_books_refl)
    ultimately show ?thesis using True assms(3) o(2) by (simp add: daemon_inv_def)
  next
    case False
    then have "honest_exit d'" "dm_sensor d' = []" using o(5) by auto
    then show ?thesis using o(3,4) inv_exit [of d'] by (simp add: untouched_def)
  qed
  then show ?thesis by (simp add: d'_def)
qed

lemma inv_step:
  assumes "daemon_step api prog args d d'" and "daemon_inv d"
  shows "daemon_inv d'"
  using assms(1)
proof (cases rule: daemon_step.cases)
  case (parse err)
  have d: "untouched d" "dm_stderr d = []" "\<not> dm_stop d"
    using assms(2) parse(2) by (simp_all add: daemon_inv_def boot_def untouched_def fresh_init)
  have "untouched d' \<and> \<not> dm_stop d' \<and> (dm_phase d' = Configuring \<and> dm_stderr d' = [] \<or> honest_exit d')"
    unfolding parse(1) by (rule parse_args_outcome [OF d, of api prog err args, unfolded Let_def])
  then show ?thesis using inv_exit [of d'] by (auto simp: daemon_inv_def [of d'])
next
  case (config os err rew)
  then have d: "untouched d" "dm_stderr d = []" "\<not> dm_stop d" using assms(2) by (simp_all add: daemon_inv_def)
  note o = configure_outcome [OF d, of os err rew, folded config(1)]
  then show ?thesis using inv_exit [OF _ o(1)] by (auto simp: daemon_inv_def [of d'])
next
  case install
  then have "untouched d" "dm_stderr d = []" "\<not> op_check_config (dm_opts d)"
    using assms(2) by (simp_all add: daemon_inv_def)
  then show ?thesis unfolding install(1) by (rule install_inv)
next
  case (polled info ds)
  then obtain ag where ag: "fresh_agent ag" "same_books (handle_events (dm_env d) (dm_delivered d) ag) (dm_agent d)"
    using assms(2) by (auto simp: daemon_inv_def)
  have "same_books (handle_events (dm_env d') (dm_delivered d') ag) (dm_agent d')"
    using same_books_run [OF same_books_trans [OF ag(2) same_books_refresh]] polled(1)
    by (simp add: poll_def handle_events_append)
  then show ?thesis using assms(2) polled ag(1) by (auto simp: daemon_inv_def poll_def)
next
  case signal
  then show ?thesis using assms(2)
    by (auto simp: daemon_inv_def sig_handler_def untouched_def)
next
  case (finish os)
  then have p: "dm_stderr d = []" "dm_sensor d = full_sensor" "\<not> op_check_config (dm_opts d)"
    "\<exists>ag. fresh_agent ag \<and> same_books (handle_events (dm_env d) (dm_delivered d) ag) (dm_agent d)"
    using assms(2) by (simp_all add: daemon_inv_def)
  note o = shut_down_outcome [OF p(2), of os, folded finish(1)]
  obtain ag where ag: "fresh_agent ag" "same_books (handle_events (dm_env d) (dm_delivered d) ag) (dm_agent d)"
    using p(4) by blast
  have "settled_run d'"
    using ag(1) same_books_fields(5) [OF same_books_flush [OF ag(2)]] unfolding settled_run_def o(5,6,7) by metis
  then show ?thesis using o p by (simp add: daemon_inv_def honest_exit_def)
qed

lemma reachable_inv: "reachable api prog args d \<Longrightarrow> daemon_inv d"
proof (induction rule: reachable.induct)
  case start
  then show ?case by (simp add: daemon_inv_def boot_def)
next
  case (step d d')
  then show ?case using inv_step by blast
qed

text \<open>How far the phases are from the exit.\<close>

fun phase_rank :: "phase \<Rightarrow> nat" where
  "phase_rank Starting = 4"
| "phase_rank Configuring = 3"
| "phase_rank Installing = 2"
| "phase_rank Polling = 1"
| "phase_rank (Exited c) = 0"

lemma step_rank:
  assumes "daemon_step api prog args d d'" and "daemon_inv d" and "dm_stop d"
  shows "dm_stop d'" and "phase_rank (dm_phase d') < phase_rank (dm_phase d)"
proof -
  have "dm_stop d' \<and> phase_rank (dm_phase d') < phase_rank (dm_phase d)"
    using assms(1)
  proof (cases rule: daemon_step.cases)
    case (parse err)
    then show ?thesis using assms(2,3) by (simp add: daemon_inv_def boot_def)
  next
    case (config os err rew)
    then show ?thesis using assms(2,3) by (simp add: daemon_inv_def)
  next
    case install
    then have d: "untouched d" "dm_stderr d = []" using assms(2) by (simp_all add: daemon_inv_def)
    show ?thesis using install_outcome(1,5) [OF d, of api] install assms(3) by auto
  next
    case (finish os)
    then have p: "dm_sensor d = full_sensor" using assms(2) by (simp add: daemon_inv_def)
    show ?thesis using shut_down_outcome [OF p, of os] finish assms(3) by simp
  qed (use assms(3) in simp_all)
  then show "dm_stop d'" "phase_rank (dm_phase d') < phase_rank (dm_phase d)" by blast+
qed

section \<open>A run to try the properties on\<close>

text \<open>
  A machine on which everything succeeds, a daemon started without options or files, and its life: two
  requests for writable and executable memory, the signal, the exit.
\<close>

definition kind_api :: sensor_api where
  "kind_api = \<lparr>api_fopen = (\<lambda>_. True), api_open = (\<lambda>_. True), api_load = True, api_program = (\<lambda>_. True),
     api_attach = (\<lambda>_ _ _. True), api_map = True, api_ring = True\<rparr>"

definition configured :: daemon where
  "configured = configure bare_os [] True (parse_args kind_api ''asic'' [] [] boot)"

definition polling :: daemon where "polling = install_sensor kind_api configured"
definition alarmed :: daemon where "alarmed = sig_handler (poll None rwx_twice polling)"
definition finished :: daemon where "finished = shut_down bare_os alarmed"

lemma configured_facts:
  "dm_phase configured = Installing" "en_rules (dm_env configured) = init_default_rules"
  "en_opts (dm_env configured) = default_options" "\<not> dm_stop configured"
  "untouched configured" "dm_stderr configured = []"
  by (simp_all add: configured_def boot_def configure_def load_rules_file_def bare_os_def Let_def
      fresh_loader_def default_options_def untouched_def fresh_init)

lemma polling_facts:
  "dm_phase polling = Polling" "dm_env polling = dm_env configured" "\<not> dm_stop polling"
  "fresh_agent (dm_agent polling)" "dm_delivered polling = []"
proof -
  note o = install_outcome [OF configured_facts(5,6), of kind_api, folded polling_def]
  show "dm_env polling = dm_env configured" "\<not> dm_stop polling" "fresh_agent (dm_agent polling)"
    "dm_delivered polling = []"
    using o(1-4) configured_facts(4) by simp_all
  have at: "attachable kind_api i" if "i < 5" for i
    by (simp add: attachable_def kind_api_def split: prod.split)
  have "list_all (linked (attach_all kind_api (acquire Bpf_Object configured))) [0..<5]"
    using attach_all_outcome(6) [of kind_api "acquire Bpf_Object configured"] at
    by (auto simp: list_all_iff linked_def)
  then show "dm_phase polling = Polling"
    by (simp add: polling_def install_sensor_def Let_def) (simp add: kind_api_def)
qed

lemma life:
  "reachable kind_api ''asic'' [] polling" "reachable kind_api ''asic'' [] alarmed"
  "reachable kind_api ''asic'' [] finished"
proof -
  have "dm_phase boot = Starting" by (simp add: boot_def)
  note 1 = reachable.step [OF reachable.start daemon_step.parse [OF this]]
  have "reachable kind_api ''asic'' [] configured"
    unfolding configured_def by (rule reachable.step [OF 1 daemon_step.config]) simp
  then show p: "reachable kind_api ''asic'' [] polling"
    unfolding polling_def by (rule reachable.step [OF _ daemon_step.install]) (rule configured_facts(1))
  have q: "reachable kind_api ''asic'' [] (poll None rwx_twice polling)"
    by (rule reachable.step [OF p daemon_step.polled]) (simp_all add: polling_facts)
  show a: "reachable kind_api ''asic'' [] alarmed"
    unfolding alarmed_def
    by (rule reachable.step [OF q daemon_step.signal]) (simp_all add: poll_def polling_facts)
  show "reachable kind_api ''asic'' [] finished"
    unfolding finished_def
    by (rule reachable.step [OF a daemon_step.finish]) (simp_all add: alarmed_def sig_handler_def poll_def polling_facts)
qed

lemma finished_facts:
  "dm_phase finished = Exited 0" "dm_delivered finished = rwx_twice" "dm_env finished = dm_env configured"
proof -
  have a: "dm_phase alarmed = Polling" "dm_delivered alarmed = rwx_twice" "dm_env alarmed = dm_env configured"
    by (simp_all add: alarmed_def sig_handler_def poll_def polling_facts)
  then have "dm_sensor alarmed = full_sensor"
    using reachable_inv [OF life(2)] by (simp add: daemon_inv_def)
  then show "dm_phase finished = Exited 0" "dm_delivered finished = rwx_twice"
    "dm_env finished = dm_env configured"
    using shut_down_outcome [of alarmed bare_os] a by (simp_all add: finished_def)
qed

section \<open>Properties\<close>

text \<open>
  C7.  The sensor is held exactly while the daemon polls: the BPF object, its five links and the ring
  buffer; on every way out, whichever call failed, all of them have been given back.
\<close>

theorem sensor_held_while_polling:
  assumes "reachable api prog args d"
  shows "case dm_phase d of
      Polling \<Rightarrow> dm_sensor d = [Bpf_Object, Link 0, Link 1, Link 2, Link 3, Link 4, Ring]
    | _ \<Rightarrow> dm_sensor d = []"
  using reachable_inv [OF assms]
  by (cases "dm_phase d") (simp_all add: daemon_inv_def full_sensor_def untouched_def boot_def)

theorem sensor_held_while_polling_witness: "dm_sensor finished = []"
  using sensor_held_while_polling [OF life(3)] by (simp add: finished_facts)

text \<open>
  C9.  The exit status is honest: the daemon only ever returns 0 or 1, and 1 exactly when it has written
  at least one message to \<open>stderr\<close>.  A check of the configuration handles no event.
\<close>

theorem exit_status_honest:
  assumes "reachable api prog args d" and "dm_phase d = Exited c"
  shows "c = (if dm_stderr d = [] then 0 else 1) \<and> (op_check_config (en_opts (dm_env d)) \<longrightarrow> dm_delivered d = [])"
  using reachable_inv [OF assms(1)] assms(2) by (simp add: daemon_inv_def honest_exit_def)

theorem exit_status_honest_witness: "dm_stderr finished = []"
  using exit_status_honest [OF life(3) finished_facts(1)] by (simp split: if_splits)

text \<open>
  C10.  A signal stops the daemon: once \<open>stop\<close> is set, whatever happens, every step brings the exit
  closer, so that no run goes on for more than two further steps, and as long as the daemon has not
  exited a step is possible.
\<close>

theorem stopped_daemon_exits:
  assumes "reachable api prog args d" and "dm_stop d"
  shows "(\<forall>d'. daemon_step api prog args d d' \<longrightarrow>
      dm_stop d' \<and> phase_rank (dm_phase d') < phase_rank (dm_phase d)) \<and>
    phase_rank (dm_phase d) \<le> 2 \<and>
    ((\<exists>d'. daemon_step api prog args d d') \<or> phase_rank (dm_phase d) = 0)"
proof -
  note inv = reachable_inv [OF assms(1)]
  have "dm_phase d \<noteq> Starting" "dm_phase d \<noteq> Configuring"
    using inv assms(2) by (auto simp: daemon_inv_def boot_def)
  then have r: "phase_rank (dm_phase d) \<le> 2" by (cases "dm_phase d") simp_all
  have "(\<exists>d'. daemon_step api prog args d d') \<or> phase_rank (dm_phase d) = 0"
    using assms(2) daemon_step.install daemon_step.finish \<open>dm_phase d \<noteq> Starting\<close> \<open>dm_phase d \<noteq> Configuring\<close>
    by (cases "dm_phase d") (simp_all, blast+)
  then show ?thesis using r step_rank [OF _ inv assms(2)] by blast
qed

theorem stopped_daemon_exits_witness:
  "\<exists>d'. daemon_step kind_api ''asic'' [] alarmed d' \<and> phase_rank (dm_phase d') = 0"
proof -
  have a: "dm_stop alarmed" "dm_phase alarmed = Polling"
    by (simp_all add: alarmed_def sig_handler_def poll_def polling_facts)
  then show ?thesis using stopped_daemon_exits [OF life(2) a(1)] by auto
qed

text \<open>
  C8.  The daemon as a whole loses no alert: when it exits, the records it wrote stand, for every
  identity, for exactly as many occurrences as there are reportable findings of that identity among
  all the records delivered to it, in however many polls.
\<close>

theorem daemon_conserves_alerts:
  assumes "reachable api prog args d" and "dm_phase d = Exited c"
    and "\<forall>x \<in> set (dm_delivered d). delivery_ok x" and "length (dm_delivered d) < 2 ^ 32"
  shows "reported k (dm_agent d) = count_list (map (\<lambda>(e, f). event_key e f)
    (filter (\<lambda>(e, f). reportable (dm_env d) f) (verdicts (dm_env d) (dm_delivered d) init_flow_store))) k"
proof -
  obtain ag os where ag: "fresh_agent ag"
    "reported k (dm_agent d) = reported k (flush_dedup_cache (dm_env d) os
       (handle_events (dm_env d) (dm_delivered d) ag))"
    using reachable_inv [OF assms(1)] assms(2) by (auto simp: daemon_inv_def settled_run_def)
  have "dedup_wf ag" "\<And>j. reported j ag + pending j ag + length (dm_delivered d) \<le> 2 ^ 32 - 1"
    "ag_flow ag = init_flow_store"
    using ag(1) assms(4) by (simp_all add: fresh_agent_def)
  then show ?thesis
    using agent_ledger.settled [where s = ag and ds = "dm_delivered d" and en = "dm_env d" and os = os and k = k]
      assms(3) ag
    by (simp add: run_deliver ledger_keys fresh_agent_def)
qed

theorem daemon_conserves_alerts_witness: "reported (event_key rwx_event rwx_finding) (dm_agent finished) = 2"
proof -
  let ?en = "dm_env finished"
  have en: "en_rules ?en = init_default_rules" "en_opts ?en = default_options"
    by (simp_all add: finished_facts configured_facts)
  have a: "assess ?en os rwx_event fl = (rwx_finding, False, zero_context, fl)" for os fl
    by (simp add: assess_def evaluate_event_def en rwx_local Let_def) (simp add: rwx_event_def)
  have r: "reportable ?en rwx_finding"
    using rwx_ok(4) by (simp add: reportable_def en default_env_def default_options_def)
  have "verdicts ?en rwx_twice init_flow_store = [(rwx_event, rwx_finding), (rwx_event, rwx_finding)]"
    by (simp add: rwx_twice_def a sizeof_edr_event_value numeral_2_eq_2)
  then show ?thesis
    using daemon_conserves_alerts [OF life(3) finished_facts(1), of "event_key rwx_event rwx_finding"] rwx_ok r
    by (simp add: finished_facts(2))
qed

end
