(* ===== verification/Spec2Isabelle.thy ===== *)
theory Spec2Isabelle
  imports Telemetry Connections Daemon
begin

text \<open>
  A verification library for the ASIC-SOC endpoint agent: five BPF programs that watch system calls
  (\<open>src/dev/sensors\<close>) and a daemon (\<open>src/dev/host\<close>) that reads their events from a ring buffer,
  decides for each event whether it is suspicious, and writes findings to the console and to a JSONL
  file.  Everything between the system call and the written record is modelled: the programs of the
  sensor, the policy and its configuration file, the process context read from \<open>/proc\<close>, the memory of
  behavioural flows, the detection rules, the suppression of repetitions, the records themselves,
  and \<open>main\<close> with its resources, its loop and its signal.

  \<^bold>\<open>Conventions.\<close>  A C string in an array is the list of its characters before the NUL, and the
  operations that copy it (\<open>snprintf\<close>, \<open>fgets\<close>, \<open>strncmp\<close>, \<open>strrchr\<close>) are modelled with their bounds in
  \<open>Prelude\<close>.  The fixed-width integers keep their width and wrap, the signed event counters
  of the telemetry (\<open>c_int\<close>) included: their overflow has no meaning in C, and what is proved of them
  assumes fewer than \<open>2 ^ 31\<close> deliveries.  A struct is a record whose fields carry a short prefix, an
  array with a count is a list of the array's full length beside the count, a global variable is an
  argument and a result.  Functions that report failure through a
  flag and an out-parameter return an option.  Pointers to rule ids, which the code compares as
  pointers, are the datatype \<open>rule_ref\<close>: a literal, or a row of one of the tables.

  \<^bold>\<open>Theories, from the bottom up.\<close>
  \<^item> \<open>Prelude\<close>: the integer types, C strings, decimal and hexadecimal text, \<open>strtoul\<close>, \<open>fgets\<close>, \<open>trim\<close>,
    and the shape of the loops the code has many times (search from either end).
  \<^item> \<open>Common\<close>: \<open>struct edr_event\<close> of \<open>asic_common.h\<close> and its well-formedness.
  \<^item> \<open>Sensor\<close>: \<open>asic_sensor.bpf.c\<close>.  Every submitted event is well formed.
  \<^item> \<open>Single\<close>: single-precision rounding, monotone and exact on small integers.
  \<^item> \<open>Telemetry\<close>: \<open>asic_telemetry.c\<close>.  The two rings are instances of the interface \<open>ring_buffer\<close>; the
    gauges stay percentages.
  \<^item> \<open>RuleTables\<close>, \<open>Policy\<close>: the rule tables as parallel arrays, adding and removing, the rule controls,
    the built-in rules, the profiles, the summary.  The table \<open>flow_defaults\<close> specifies the flow rules by
    profile.  The abstract view of a table is the list of its rows; tables
    are the instances of an interface with the laws of adding and removing, and the controls refine
    the list of their entries.
  \<^item> \<open>Config\<close>: \<open>select_profile_from_file\<close> and \<open>load_rules_file\<close>, with each message they write.  A
    preorder of loader states (messages only grow, a message makes the file invalid, the policy
    stays well formed) is shown for every setting and carried along the loops.
  \<^item> \<open>NetClass\<close>: address scopes and address texts.
  \<^item> \<open>ProcContext\<close>: \<open>enrich_process\<close> and what it reads; the file system, the clock and the terminal
    queries are the fields of the record \<open>os_view\<close>, which may differ from event to event.
  \<^item> \<open>Detect\<close>: the scans of the rule tables and the findings.
  \<^item> \<open>FlowState\<close>: the array of flow entries.  Its abstract view at a time is a map from process roots
    to live entries; an interface states what a touch and a lookup do to that map, and inside it
    runs on at most 256 roots are shown to agree with an unbounded map with expiry.
  \<^item> \<open>Evaluate\<close>: the flow rules and the order of all rules; every finding respects the rule controls and has
    the severity declared for its rule (\<open>declared_severity\<close>); the verdicts of the built-in policy.
  \<^item> \<open>Output\<close>: event lines, records, metadata.  The abstract form of a record is a list of keys and
    values, and a parser reads every written record back.
  \<^item> \<open>Connections\<close>: sensor and output together: the record of a connection shows the process, the address
    and the port that the bytes of the socket address in the caller's memory denote.
  \<^item> \<open>Dedup\<close>, \<open>Agent\<close>: \<open>emit_finding\<close>, the cache of repetitions and \<open>handle_event\<close>.  The interface
    \<open>report_ledger\<close> is that of a book with amounts paid and due; its instance says that what has been
    reported and what the cache still owes are together the reportable findings so far.
  \<^item> \<open>Scenarios\<close>: properties of several operations together: when a finding is held back, what happens
    after the window, and the way from a sensitive read to the report of the transfer.
  \<^item> \<open>Daemon\<close>: \<open>main\<close> as a step relation over phases; its invariant covers the sensor's resources, the exit
    status and the reports.

  \<^bold>\<open>Loops, bounds and fuel.\<close>  Every loop of the code is a total function here: the removal loops, the
  \<open>fread\<close> loop and the \<open>fgets\<close> loops by measures (rows left, bytes left), the others by structural
  recursion on the array.  The only fuel is that of the parser of records, which is not code of the
  program: it is the length of the record, and reading back is proved with it.  The endless loop of
  \<open>main\<close> is the step \<open>polled\<close>, taken any number of times until the signal.  The conservation of alerts
  is stated for runs of fewer than \<open>2 ^ 32\<close> records, since the repeat counts have 32 bits, and the
  agreement of the flow memory with a map for at most 256 process trees at a time, since the array
  has that many entries and then replaces the oldest slot in turn.

  \<^bold>\<open>Parameters.\<close>  What is not code of this repository is an argument: the kernel helpers and the user
  memory the BPF programs see, the view \<open>os_view\<close> of the operating system (among it \<open>inet_ntop\<close> for
  IPv6 and \<open>localtime\<close>), whether the calls of libbpf and \<open>fopen\<close> succeed (\<open>sensor_api\<close>), the text of
  \<open>strerror\<close>, and the records the ring buffer delivers.  Nothing is assumed of them, except where a
  theorem names it: well-formed events, which the sensor provides, free memory not above the total,
  user memory that reads back the same bytes at every length, and texts of \<open>inet_ntop\<close> that fit
  \<open>INET6_ADDRSTRLEN\<close>.

  \<^bold>\<open>Not modelled.\<close>  The bytes lost when a write to a stream fails; the scheduling of the five BPF programs
  against each other (each submits whole records, and the daemon is shown correct for every sequence
  of them); a signal that arrives before its handler is installed, which ends the process; the Python
  and shell tools, tests and packaging.
\<close>

end
